theory Spec2Isabelle
  imports Complex_Main "HOL-Library.Multiset"
begin

section \<open>Student Performance Dashboard: the data model\<close>

text \<open>
  The theory embeds the logic of \<^verbatim>\<open>src/script.js\<close>. The module-level variables
  \<^verbatim>\<open>students\<close>, \<^verbatim>\<open>selectedStudents\<close> and \<^verbatim>\<open>selectedStudentForRadar\<close> become the
  fields of a state record that every handler takes and returns. Of the document tree
  only the insight panel and the open flag of the comparison dialog are kept; canvas
  drawing and the table markup are left out, since they are write-only for the code.

  Numbers. A mark is a result of \<^verbatim>\<open>parseInt\<close>: an integer or NaN. It is modelled as
  an \<open>int option\<close>, where \<open>None\<close> is NaN; an average is a \<open>rat option\<close> in the same
  way. Arithmetic on a NaN yields NaN and every comparison with a NaN is false. For
  integer marks the double arithmetic of \<^verbatim>\<open>calculateAverage\<close> agrees with the exact
  one: the mean of five integers times ten is an integer, which \<^verbatim>\<open>Math.round\<close> recovers
  from its double approximation, and the final division by ten yields the double
  nearest to the decimal.

  Strings are lists of characters with codes below 256.
\<close>

type_synonym mark = "int option"

record marks =
  math :: mark
  science :: mark
  english :: mark
  history :: mark
  computer :: mark

record student =
  id' :: int
  rollNo :: string
  name :: string
  marks :: marks

datatype subject = Math | Science | English | History | Computer

definition SUBJECTS :: "subject list" where
  "SUBJECTS = [Math, Science, English, History, Computer]"

fun SUBJECT_LABELS :: "subject \<Rightarrow> string" where
  "SUBJECT_LABELS Math = ''Math''"
| "SUBJECT_LABELS Science = ''Science''"
| "SUBJECT_LABELS English = ''English''"
| "SUBJECT_LABELS History = ''History''"
| "SUBJECT_LABELS Computer = ''Computer''"

text \<open>Property access \<^verbatim>\<open>marks[subject]\<close> and assignment \<^verbatim>\<open>marks[subject] = v\<close>.\<close>

fun mark_at :: "marks \<Rightarrow> subject \<Rightarrow> mark" where
  "mark_at m Math = math m"
| "mark_at m Science = science m"
| "mark_at m English = english m"
| "mark_at m History = history m"
| "mark_at m Computer = computer m"

fun mark_set :: "marks \<Rightarrow> subject \<Rightarrow> mark \<Rightarrow> marks" where
  "mark_set m Math v = m\<lparr>math := v\<rparr>"
| "mark_set m Science v = m\<lparr>science := v\<rparr>"
| "mark_set m English v = m\<lparr>english := v\<rparr>"
| "mark_set m History v = m\<lparr>history := v\<rparr>"
| "mark_set m Computer v = m\<lparr>computer := v\<rparr>"

definition studentsData :: "student list" where
  "studentsData =
    [\<lparr>id' = 104, rollNo = ''104'', name = ''Ananya Singh'',
      marks = \<lparr>math = Some 95, science = Some 92, english = Some 88,
               history = Some 90, computer = Some 98\<rparr>\<rparr>,
     \<lparr>id' = 101, rollNo = ''101'', name = ''Aarav Sharma'',
      marks = \<lparr>math = Some 92, science = Some 88, english = Some 76,
               history = Some 85, computer = Some 95\<rparr>\<rparr>,
     \<lparr>id' = 103, rollNo = ''103'', name = ''Rohan Kumar'',
      marks = \<lparr>math = Some 65, science = Some 58, english = Some 70,
               history = Some 62, computer = Some 68\<rparr>\<rparr>,
     \<lparr>id' = 102, rollNo = ''102'', name = ''Priya Patel'',
      marks = \<lparr>math = Some 55, science = Some 52, english = Some 58,
               history = Some 54, computer = Some 56\<rparr>\<rparr>,
     \<lparr>id' = 105, rollNo = ''105'', name = ''Vikram Reddy'',
      marks = \<lparr>math = Some 45, science = Some 52, english = Some 48,
               history = Some 40, computer = Some 55\<rparr>\<rparr>]"

section \<open>Derivation: average and ranks\<close>

text \<open>
  \<^verbatim>\<open>Object.values(marks)\<close>: every marks object of the program is created with the
  five subject keys in this order (the initial data and the add form), and the editor
  only overwrites one of them, so the list always has five entries and the division
  in \<^verbatim>\<open>calculateAverage\<close> is never by zero.
\<close>

definition Object_values :: "marks \<Rightarrow> mark list" where
  "Object_values m = [math m, science m, english m, history m, computer m]"

text \<open>\<^verbatim>\<open>Math.round\<close> rounds to the nearest integer, a half towards plus infinity.\<close>

definition Math_round :: "rat \<Rightarrow> int" where
  "Math_round x = \<lfloor>x + 1 / 2\<rfloor>"

text \<open>
  The operators of the script on numbers that may be NaN: \<^verbatim>\<open>a + b\<close> on marks,
  \<^verbatim>\<open>a - b\<close> on averages, and the comparisons \<^verbatim>\<open>a < b\<close> and \<^verbatim>\<open>a >= b\<close>
  (\<^verbatim>\<open>a > b\<close> is \<^verbatim>\<open>b < a\<close>).
\<close>

definition js_add :: "mark \<Rightarrow> mark \<Rightarrow> mark" where
  "js_add a b = (case (a, b) of (Some x, Some y) \<Rightarrow> Some (x + y) | _ \<Rightarrow> None)"

definition js_sub :: "rat option \<Rightarrow> rat option \<Rightarrow> rat option" where
  "js_sub a b = (case (a, b) of (Some x, Some y) \<Rightarrow> Some (x - y) | _ \<Rightarrow> None)"

definition js_lt :: "'a::linorder option \<Rightarrow> 'a option \<Rightarrow> bool" where
  "js_lt a b = (case (a, b) of (Some x, Some y) \<Rightarrow> x < y | _ \<Rightarrow> False)"

definition js_ge :: "'a::linorder option \<Rightarrow> 'a option \<Rightarrow> bool" where
  "js_ge a b = (case (a, b) of (Some x, Some y) \<Rightarrow> y \<le> x | _ \<Rightarrow> False)"

text \<open>
  \<^verbatim>\<open>calculateAverage\<close>. The sum of the reduction is NaN as soon as one mark is, and
  the division, \<^verbatim>\<open>Math.round\<close> and the final division hand a NaN on.
\<close>

definition calculateAverage :: "marks \<Rightarrow> rat option" where
  "calculateAverage m =
     (let values = Object_values m;
          sum = fold (\<lambda>val acc. js_add acc val) values (Some 0)
      in map_option
           (\<lambda>sum. of_int (Math_round ((of_int sum / of_nat (length values)) * 10)) / 10)
           sum)"

text \<open>
  The specification's wording of the average, for comparison with the code: the
  arithmetic mean of the five values, rounded to one decimal place, a half away from
  zero.
\<close>

definition mean_of :: "int list \<Rightarrow> rat" where
  "mean_of vs = of_int (sum_list vs) / of_nat (length vs)"

definition round_half_away_tenths :: "rat \<Rightarrow> rat" where
  "round_half_away_tenths x =
     (if 0 \<le> x then of_int \<lfloor>x * 10 + 1 / 2\<rfloor> / 10
      else - (of_int \<lfloor>- x * 10 + 1 / 2\<rfloor> / 10))"

record studentWithAvg = student +
  average :: "rat option"

record rankedStudent = studentWithAvg +
  rank :: nat

text \<open>The object spread \<^verbatim>\<open>{...s, average: calculateAverage(s.marks)}\<close>.\<close>

definition withAverage :: "student \<Rightarrow> studentWithAvg" where
  "withAverage s =
     \<lparr>id' = id' s, rollNo = rollNo s, name = name s, marks = marks s,
      average = calculateAverage (marks s)\<rparr>"

text \<open>
  \<^verbatim>\<open>Array.prototype.sort(cmp)\<close> is stable. For a consistent comparator its result is
  the one stable sorted arrangement, which insertion from the right computes: an
  element moves behind exactly those elements it compares greater than. The sort
  reads a comparator result NaN as 0 (\<open>comparatorResult\<close>). A NaN average makes the
  comparator of \<^verbatim>\<open>calculateRanks\<close> inconsistent, and the standard then leaves the order
  to the engine; the model gives the order of the insertion there, and what is proved
  about the order of the ranking is proved for rosters without NaN.
\<close>

fun comparatorResult :: "rat option \<Rightarrow> rat" where
  "comparatorResult None = 0"
| "comparatorResult (Some v) = v"

fun insert_cmp :: "('a \<Rightarrow> 'a \<Rightarrow> 'n::{zero,linorder}) \<Rightarrow> 'a \<Rightarrow> 'a list \<Rightarrow> 'a list" where
  "insert_cmp cmp x [] = [x]"
| "insert_cmp cmp x (y # ys) =
     (if 0 < cmp x y then y # insert_cmp cmp x ys else x # y # ys)"

definition Array_sort :: "('a \<Rightarrow> 'a \<Rightarrow> 'n::{zero,linorder}) \<Rightarrow> 'a list \<Rightarrow> 'a list" where
  "Array_sort cmp xs = foldr (insert_cmp cmp) xs []"

text \<open>
  The rank loop of \<^verbatim>\<open>calculateRanks\<close>: \<open>i\<close> is the loop index, \<open>currentRank\<close> the
  loop variable and \<open>prev\<close> the average at index \<open>i - 1\<close> (unused when \<open>i = 0\<close>).
\<close>

fun assignRanks ::
    "nat \<Rightarrow> nat \<Rightarrow> rat option \<Rightarrow> studentWithAvg list \<Rightarrow> rankedStudent list" where
  "assignRanks i currentRank prev [] = []"
| "assignRanks i currentRank prev (s # rest) =
     (let currentRank' = (if 0 < i \<and> js_lt (average s) prev then i + 1 else currentRank)
      in \<lparr>id' = id' s, rollNo = rollNo s, name = name s, marks = marks s,
          average = average s, rank = currentRank'\<rparr>
         # assignRanks (i + 1) currentRank' (average s) rest)"

definition calculateRanks :: "student list \<Rightarrow> rankedStudent list" where
  "calculateRanks students =
     (let studentsWithAvg = map withAverage students;
          sorted = Array_sort (\<lambda>a b. comparatorResult (js_sub (average b) (average a)))
                     studentsWithAvg
      in assignRanks 0 1 None sorted)"

text \<open>The student record inside a ranked one.\<close>

definition student_of :: "rankedStudent \<Rightarrow> student" where
  "student_of r = \<lparr>id' = id' r, rollNo = rollNo r, name = name r, marks = marks r\<rparr>"

text \<open>
  A marks object, and a roster, without NaN. The number of averages in a list that are
  strictly higher than a given one, and the specification's example roster: two
  students who average 70 and one who averages 60.
\<close>

definition numeric :: "marks \<Rightarrow> bool" where
  "numeric m = list_all (\<lambda>v. v \<noteq> None) (Object_values m)"

definition numeric_roster :: "student list \<Rightarrow> bool" where
  "numeric_roster roster = list_all (\<lambda>s. numeric (marks s)) roster"

definition higher :: "rat option \<Rightarrow> rat option list \<Rightarrow> nat" where
  "higher a as = length (filter (\<lambda>b. js_lt a b) as)"

definition tieRoster :: "student list" where
  "tieRoster =
    [\<lparr>id' = 1, rollNo = ''1'', name = ''A'',
      marks = \<lparr>math = Some 70, science = Some 70, english = Some 70,
               history = Some 70, computer = Some 70\<rparr>\<rparr>,
     \<lparr>id' = 2, rollNo = ''2'', name = ''B'',
      marks = \<lparr>math = Some 80, science = Some 60, english = Some 70,
               history = Some 75, computer = Some 65\<rparr>\<rparr>,
     \<lparr>id' = 3, rollNo = ''3'', name = ''C'',
      marks = \<lparr>math = Some 60, science = Some 60, english = Some 60,
               history = Some 60, computer = Some 60\<rparr>\<rparr>]"

section \<open>Strings\<close>

text \<open>
  The white space that \<^verbatim>\<open>String.prototype.trim\<close> and \<^verbatim>\<open>parseInt\<close> skip, among the
  characters below 256: tab, line feed, vertical tab, form feed, carriage return,
  space and the no-break space.
\<close>

definition isWhiteSpace :: "char \<Rightarrow> bool" where
  "isWhiteSpace c = (of_char c \<in> set [9, 10, 11, 12, 13, 32, 160 :: nat])"

definition String_trim :: "string \<Rightarrow> string" where
  "String_trim s = rev (dropWhile isWhiteSpace (rev (dropWhile isWhiteSpace s)))"

text \<open>
  \<^verbatim>\<open>toLowerCase\<close> on the characters below 256: the letters A to Z and the accented
  capitals 192 to 222 (without the multiplication sign 215) move up by 32.
\<close>

definition toLowerChar :: "char \<Rightarrow> char" where
  "toLowerChar c =
     (let n = of_char c :: nat
      in if (65 \<le> n \<and> n \<le> 90) \<or> (192 \<le> n \<and> n \<le> 222 \<and> n \<noteq> 215)
         then char_of (n + 32) else c)"

definition toLowerCase :: "string \<Rightarrow> string" where
  "toLowerCase s = map toLowerChar s"

fun startsWith :: "string \<Rightarrow> string \<Rightarrow> bool" where
  "startsWith s [] = True"
| "startsWith [] (p # ps) = False"
| "startsWith (c # s) (p # ps) = (c = p \<and> startsWith s ps)"

text \<open>\<^verbatim>\<open>s.includes(t)\<close>: \<open>t\<close> occurs in \<open>s\<close> as a contiguous substring.\<close>

fun String_includes :: "string \<Rightarrow> string \<Rightarrow> bool" where
  "String_includes [] t = (t = [])"
| "String_includes (c # s) t = (startsWith (c # s) t \<or> String_includes s t)"

text \<open>
  \<^verbatim>\<open>parseInt(text)\<close> without a radix: leading white space is skipped, a sign is read,
  a prefix 0x or 0X selects radix 16, and the longest run of digits of the radix is
  the number; whatever follows is ignored. \<open>None\<close> is NaN (no digit was found). The
  value is exact here; the double the engine returns for a very long run of digits
  lies on the same side of 0 and of 100.
\<close>

definition digitValue :: "char \<Rightarrow> nat" where
  "digitValue c =
     (let n = of_char c :: nat
      in if 48 \<le> n \<and> n \<le> 57 then n - 48
         else if 97 \<le> n \<and> n \<le> 122 then n - 87
         else if 65 \<le> n \<and> n \<le> 90 then n - 55
         else 36)"

definition isRadixDigit :: "nat \<Rightarrow> char \<Rightarrow> bool" where
  "isRadixDigit R c = (digitValue c < R)"

definition digitsValue :: "nat \<Rightarrow> string \<Rightarrow> nat" where
  "digitsValue R Z = foldl (\<lambda>acc c. acc * R + digitValue c) 0 Z"

definition parseInt :: "string \<Rightarrow> int option" where
  "parseInt text =
     (let S = dropWhile isWhiteSpace text;
          sign = (if S \<noteq> [] \<and> hd S = CHR ''-'' then - 1 else 1 :: int);
          S1 = (if S \<noteq> [] \<and> (hd S = CHR ''+'' \<or> hd S = CHR ''-'') then tl S else S);
          hex = (take 2 S1 = ''0x'' \<or> take 2 S1 = ''0X'');
          R = (if hex then 16 else 10);
          S2 = (if hex then drop 2 S1 else S1);
          Z = takeWhile (isRadixDigit R) S2
      in if Z = [] then None else Some (sign * int (digitsValue R Z)))"

text \<open>
  The specification's wording "a valid integer", for comparison with \<open>parseInt\<close>: an
  optional sign followed by one or more decimal digits and nothing else.
\<close>

definition valid_integer :: "string \<Rightarrow> bool" where
  "valid_integer t =
     (let body = (if t \<noteq> [] \<and> (hd t = CHR ''+'' \<or> hd t = CHR ''-'') then tl t else t)
      in body \<noteq> [] \<and> list_all (isRadixDigit 10) body)"

definition integer_value :: "string \<Rightarrow> int" where
  "integer_value t =
     (if t \<noteq> [] \<and> hd t = CHR ''-'' then - int (digitsValue 10 (tl t))
      else if t \<noteq> [] \<and> hd t = CHR ''+'' then int (digitsValue 10 (tl t))
      else int (digitsValue 10 t))"

section \<open>The query pipeline of renderTable\<close>

text \<open>
  The rows that \<^verbatim>\<open>renderTable\<close> builds, in order. Its inputs are the roster and the
  values of the search box and of the two select boxes. \<^verbatim>\<open>String.localeCompare\<close>
  belongs to the engine and depends on its locale data, so it is a parameter.
\<close>

definition renderTable ::
    "(string \<Rightarrow> string \<Rightarrow> int) \<Rightarrow> string \<Rightarrow> string \<Rightarrow> string \<Rightarrow> student list
      \<Rightarrow> rankedStudent list" where
  "renderTable localeCompare searchInput filter' sort' students =
     (let searchTerm = String_trim (toLowerCase searchInput);
          rankedStudents = calculateRanks students;
          searched =
            (if searchTerm \<noteq> [] then
               filter (\<lambda>s. String_includes (toLowerCase (name s)) searchTerm
                          \<or> String_includes (toLowerCase (rollNo s)) searchTerm) rankedStudents
             else rankedStudents);
          filtered =
            (if filter' = ''top'' then filter (\<lambda>s. js_ge (average s) (Some 75)) searched
             else if filter' = ''below'' then filter (\<lambda>s. js_lt (average s) (Some 50)) searched
             else searched)
      in if sort' = ''name'' then Array_sort (\<lambda>a b. localeCompare (name a) (name b)) filtered
         else if sort' = ''roll'' then
           Array_sort (\<lambda>a b. localeCompare (rollNo a) (rollNo b)) filtered
         else filtered)"

text \<open>
  The specification's wording of the two filters, for comparison with the code: a
  student matches a search term when the term occurs in the lower-cased name or roll
  number, and matches a category by the thresholds on the average.
\<close>

definition matches_search :: "string \<Rightarrow> rankedStudent \<Rightarrow> bool" where
  "matches_search needle s =
     ((\<exists>pre post. toLowerCase (name s) = pre @ needle @ post)
      \<or> (\<exists>pre post. toLowerCase (rollNo s) = pre @ needle @ post))"

definition matches_category :: "string \<Rightarrow> rankedStudent \<Rightarrow> bool" where
  "matches_category cat s =
     (if cat = ''top'' then js_ge (average s) (Some 75)
      else if cat = ''below'' then js_lt (average s) (Some 50) else True)"

text \<open>
  A comparator is consistent when it orders its arguments as a total preorder does;
  the engine's \<^verbatim>\<open>localeCompare\<close> is. The comparison by character codes is one such
  comparator and serves as the example.
\<close>

definition consistent_comparator :: "(string \<Rightarrow> string \<Rightarrow> int) \<Rightarrow> bool" where
  "consistent_comparator cmp =
     ((\<forall>a b. 0 < cmp a b \<longrightarrow> cmp b a \<le> 0)
      \<and> (\<forall>a b c. cmp a b \<le> 0 \<and> cmp b c \<le> 0 \<longrightarrow> cmp a c \<le> 0))"

fun codeUnitCompare :: "string \<Rightarrow> string \<Rightarrow> int" where
  "codeUnitCompare [] [] = 0"
| "codeUnitCompare [] (b # bs) = - 1"
| "codeUnitCompare (a # as) [] = 1"
| "codeUnitCompare (a # as) (b # bs) =
     (if (of_char a :: nat) < of_char b then - 1
      else if (of_char b :: nat) < of_char a then 1
      else codeUnitCompare as bs)"

section \<open>Insights and the application state\<close>

record insight =
  status :: string
  statusClass :: string
  strengths :: "string list"
  weaknesses :: "string list"
  insightAverage :: "rat option"

text \<open>
  \<^verbatim>\<open>getInsight\<close>. The loop over \<^verbatim>\<open>Object.entries(student.marks)\<close> visits the five keys
  in the order of \<open>SUBJECTS\<close>.
\<close>

definition getInsight :: "student \<Rightarrow> insight" where
  "getInsight student =
     (let average = calculateAverage (marks student)
      in \<lparr>status = (if js_ge average (Some 75) then ''Excellent''
                    else if js_ge average (Some 50) then ''Average''
                    else ''Needs Improvement''),
          statusClass = (if js_ge average (Some 75) then ''insight-excellent''
                    else if js_ge average (Some 50) then ''insight-average''
                    else ''insight-needs-improvement''),
          strengths = map SUBJECT_LABELS
                        (filter (\<lambda>subject. js_ge (mark_at (marks student) subject) (Some 75))
                           SUBJECTS),
          weaknesses = map SUBJECT_LABELS
                        (filter (\<lambda>subject. \<not> js_ge (mark_at (marks student) subject) (Some 75)
                                  \<and> js_lt (mark_at (marks student) subject) (Some 50))
                           SUBJECTS),
          insightAverage = average\<rparr>)"

text \<open>
  The content of the insight panel: a placeholder paragraph with its text, or the
  card of one student (name and insight; grade and style classes are functions of the
  insight's average).
\<close>

datatype panel = Placeholder string | InsightCard string insight

definition multiplePlaceholder :: panel where
  "multiplePlaceholder = Placeholder ''Multiple students selected. Analysis hidden.''"

definition defaultPlaceholder :: panel where
  "defaultPlaceholder =
     Placeholder ''Hover over or click a student row to see detailed insights.''"

record state =
  students :: "student list"
  selectedStudents :: "int list"
  selectedStudentForRadar :: "int option"
  insightPanel :: panel
  comparisonModalActive :: bool

text \<open>
  The state when the script has loaded. The panel's first content comes from the
  page's markup, which is not part of the script, so it is a parameter.
\<close>

definition initialState :: "panel \<Rightarrow> state" where
  "initialState p =
     \<lparr>students = studentsData, selectedStudents = [], selectedStudentForRadar = None,
      insightPanel = p, comparisonModalActive = False\<rparr>"

text \<open>
  The test \<^verbatim>\<open>if (selectedStudentForRadar)\<close>: null and the number 0 are both falsy.
\<close>

fun truthy :: "int option \<Rightarrow> bool" where
  "truthy None = False"
| "truthy (Some n) = (n \<noteq> 0)"

definition showInsight :: "int \<Rightarrow> state \<Rightarrow> state" where
  "showInsight studentId s =
     (case find (\<lambda>x. id' x = studentId) (students s) of
        None \<Rightarrow> s
      | Some student \<Rightarrow> s\<lparr>insightPanel := InsightCard (name student) (getInsight student)\<rparr>)"

definition restoreInsightState :: "state \<Rightarrow> state" where
  "restoreInsightState s =
     (if 1 < length (selectedStudents s) then s\<lparr>insightPanel := multiplePlaceholder\<rparr>
      else if length (selectedStudents s) = 1 then showInsight (selectedStudents s ! 0) s
      else if truthy (selectedStudentForRadar s) then
        showInsight (the (selectedStudentForRadar s)) s
      else s\<lparr>insightPanel := defaultPlaceholder\<rparr>)"

text \<open>
  The change handler of a row's checkbox; \<open>checked\<close> is the box's new value. On the
  rejected third selection the handler unchecks the box and returns at once.
\<close>

definition checkboxChange :: "int \<Rightarrow> bool \<Rightarrow> state \<Rightarrow> state" where
  "checkboxChange studentId checked s =
     (if checked then
        (if length (selectedStudents s) < 2 then
           restoreInsightState (s\<lparr>selectedStudents := selectedStudents s @ [studentId]\<rparr>)
         else s)
      else
        restoreInsightState
          (s\<lparr>selectedStudents := filter (\<lambda>i. i \<noteq> studentId) (selectedStudents s)\<rparr>))"

definition selectStudentForRadar :: "int \<Rightarrow> state \<Rightarrow> state" where
  "selectStudentForRadar studentId s = s\<lparr>selectedStudentForRadar := Some studentId\<rparr>"

text \<open>The click handler of a row, outside its checkbox, mark cells and button.\<close>

definition rowClick :: "int \<Rightarrow> state \<Rightarrow> state" where
  "rowClick studentId s = showInsight studentId (selectStudentForRadar studentId s)"

definition openComparisonModal :: "state \<Rightarrow> state" where
  "openComparisonModal s =
     (if length (selectedStudents s) \<noteq> 2 then s else s\<lparr>comparisonModalActive := True\<rparr>)"

definition closeComparisonModal :: "state \<Rightarrow> state" where
  "closeComparisonModal s = s\<lparr>comparisonModalActive := False\<rparr>"

definition handlePrint :: "state \<Rightarrow> state" where
  "handlePrint s =
     (if length (selectedStudents s) = 1 then
        (case find (\<lambda>x. id' x = selectedStudents s ! 0) (students s) of
           None \<Rightarrow> s
         | Some student \<Rightarrow> showInsight (selectedStudents s ! 0) s)
      else s)"

section \<open>The comparison chart\<close>

text \<open>
  What \<^verbatim>\<open>drawComparisonChart\<close> writes besides the bars: the two names, the winner
  markers (subject and bar index) and the legend (subject label and winner's name).
  \<open>None\<close> means that the function returned before drawing.
\<close>

definition winner :: "mark \<Rightarrow> mark \<Rightarrow> int" where
  "winner m0 m1 = (if js_lt m1 m0 then 0 else if js_lt m0 m1 then 1 else - 1)"

record comparison =
  comparisonNames :: "string \<times> string"
  winnerMarkers :: "(subject \<times> int) list"
  comparisonLegend :: "(string \<times> string) list"

definition drawComparisonChart :: "state \<Rightarrow> comparison option" where
  "drawComparisonChart s =
     (if length (selectedStudents s) \<noteq> 2 then None
      else
        (case (find (\<lambda>x. id' x = selectedStudents s ! 0) (students s),
               find (\<lambda>x. id' x = selectedStudents s ! 1) (students s)) of
           (Some student1, Some student2) \<Rightarrow>
             Some \<lparr>comparisonNames = (name student1, name student2),
                   winnerMarkers =
                     concat (map (\<lambda>subject.
                       filter (\<lambda>(sub, barIndex).
                           winner (mark_at (marks student1) subject)
                                  (mark_at (marks student2) subject) = barIndex)
                         [(subject, 0), (subject, 1)]) SUBJECTS),
                   comparisonLegend =
                     concat (map (\<lambda>subject.
                       (let w = winner (mark_at (marks student1) subject)
                                       (mark_at (marks student2) subject)
                        in if 0 \<le> w then
                             [(SUBJECT_LABELS subject,
                               if w = 0 then name student1 else name student2)]
                           else [])) SUBJECTS)\<rparr>
         | _ \<Rightarrow> None))"

section \<open>Mutations\<close>

text \<open>
  \<^verbatim>\<open>updateAllVisuals\<close> after \<^verbatim>\<open>renderTable\<close>: the refresh of the focused student, or
  the reset when that student is gone.
\<close>

definition updateAllVisuals :: "state \<Rightarrow> state" where
  "updateAllVisuals s =
     (if truthy (selectedStudentForRadar s) then
        (case find (\<lambda>x. id' x = the (selectedStudentForRadar s)) (students s) of
           Some student \<Rightarrow> showInsight (the (selectedStudentForRadar s)) s
         | None \<Rightarrow> s\<lparr>insightPanel := defaultPlaceholder, selectedStudentForRadar := None\<rparr>)
      else s)"

text \<open>
  The argument of \<^verbatim>\<open>addStudent\<close>: the trimmed name and roll number, and the marks
  as \<^verbatim>\<open>parseInt\<close> returned them.
\<close>

record studentData =
  name' :: string
  rollNo' :: string
  marks' :: marks

text \<open>
  \<^verbatim>\<open>addStudent\<close>. The new id is \<^verbatim>\<open>Math.max(...ids) + 1\<close> on a non-empty roster and 1
  on an empty one.
\<close>

definition addStudent :: "studentData \<Rightarrow> state \<Rightarrow> state" where
  "addStudent studentData s =
     (let newId = (case map id' (students s) of [] \<Rightarrow> 1 | x # xs \<Rightarrow> fold max xs x + 1);
          newStudent = \<lparr>id' = newId, rollNo = rollNo' studentData,
                        name = name' studentData, marks = marks' studentData\<rparr>
      in updateAllVisuals (s\<lparr>students := students s @ [newStudent]\<rparr>))"

text \<open>
  The submit handler of the add form. The form is the content of its seven inputs.
  The result is the text of the alert, if one was raised, and the next state. Each
  mark is \<^verbatim>\<open>parseInt\<close> of its input and is handed to \<^verbatim>\<open>addStudent\<close> as it is, NaN
  included.
\<close>

record addForm =
  studentName :: string
  rollNoInput :: string
  markMath :: string
  markScience :: string
  markEnglish :: string
  markHistory :: string
  markComputer :: string

definition submitAddStudent :: "addForm \<Rightarrow> state \<Rightarrow> string option \<times> state" where
  "submitAddStudent form s =
     (let rollNo1 = String_trim (rollNoInput form)
      in if list_ex (\<lambda>x. rollNo x = rollNo1) (students s) then
           (Some ''Roll Number already exists!'', s)
         else
           (None,
            addStudent
              \<lparr>name' = String_trim (studentName form),
               rollNo' = rollNo1,
               marks' = \<lparr>math = parseInt (markMath form),
                         science = parseInt (markScience form),
                         english = parseInt (markEnglish form),
                         history = parseInt (markHistory form),
                         computer = parseInt (markComputer form)\<rparr>\<rparr> s))"

definition deleteStudent :: "int \<Rightarrow> state \<Rightarrow> state" where
  "deleteStudent i s =
     (let s1 = s\<lparr>students := filter (\<lambda>x. id' x \<noteq> i) (students s)\<rparr>;
          s2 = (if i \<in> set (selectedStudents s1) then
                  (let s' = s1\<lparr>selectedStudents :=
                                filter (\<lambda>sId. sId \<noteq> i) (selectedStudents s1)\<rparr>
                   in if comparisonModalActive s' \<and> length (selectedStudents s') < 2
                      then closeComparisonModal s' else s')
                else s1)
      in updateAllVisuals s2)"

text \<open>
  The blur handler of a mark cell. \<^verbatim>\<open>students.find\<close> yields undefined for an id that
  is not in the roster, and reading \<^verbatim>\<open>student.marks\<close> then throws a TypeError; this
  happens on both branches. The assignment \<^verbatim>\<open>student.marks[subject] = newValue\<close>
  changes the object that \<^verbatim>\<open>find\<close> returned, the first one with that id. The result
  is the number the cell shows afterwards and the next state.
\<close>

datatype error = TypeError

fun updateFound :: "int \<Rightarrow> (student \<Rightarrow> student) \<Rightarrow> student list \<Rightarrow> student list" where
  "updateFound i f [] = []"
| "updateFound i f (x # xs) = (if id' x = i then f x # xs else x # updateFound i f xs)"

definition isNaN :: "mark \<Rightarrow> bool" where
  "isNaN v = (v = None)"

definition handleMarkEdit :: "int \<Rightarrow> subject \<Rightarrow> string \<Rightarrow> state \<Rightarrow> error + (mark \<times> state)" where
  "handleMarkEdit studentId subject textContent s =
     (let newValue = parseInt (String_trim textContent);
          student = find (\<lambda>x. id' x = studentId) (students s)
      in if isNaN newValue \<or> js_lt newValue (Some 0) \<or> js_lt (Some 100) newValue then
           (case student of
              None \<Rightarrow> Inl TypeError
            | Some st \<Rightarrow> Inr (mark_at (marks st) subject, s))
         else
           (case student of
              None \<Rightarrow> Inl TypeError
            | Some st \<Rightarrow>
                Inr (newValue,
                     updateAllVisuals
                       (s\<lparr>students :=
                            updateFound studentId
                              (\<lambda>x. x\<lparr>marks := mark_set (marks x) subject newValue\<rparr>)
                              (students s)\<rparr>))))"

section \<open>The states the dashboard can reach\<close>

text \<open>
  One rule per event handler. Rows, checkboxes and delete buttons exist only for
  students of the roster, so the events of a row carry the id of a roster entry; the
  table is rebuilt after every change of the roster.
\<close>

inductive reachable :: "state \<Rightarrow> bool" where
  init: "reachable (initialState p)"
| checkbox: "reachable s \<Longrightarrow> i \<in> id' ` set (students s) \<Longrightarrow> reachable (checkboxChange i c s)"
| mouseenter: "reachable s \<Longrightarrow> i \<in> id' ` set (students s) \<Longrightarrow> reachable (showInsight i s)"
| mouseleave: "reachable s \<Longrightarrow> reachable (restoreInsightState s)"
| click: "reachable s \<Longrightarrow> i \<in> id' ` set (students s) \<Longrightarrow> reachable (rowClick i s)"
| edit: "reachable s \<Longrightarrow> handleMarkEdit i subject raw s = Inr (shown, s') \<Longrightarrow> reachable s'"
| add: "reachable s \<Longrightarrow> reachable (snd (submitAddStudent form s))"
| delete: "reachable s \<Longrightarrow> reachable (deleteStudent i s)"
| compare: "reachable s \<Longrightarrow> reachable (openComparisonModal s)"
| close: "reachable s \<Longrightarrow> reachable (closeComparisonModal s)"
| print: "reachable s \<Longrightarrow> reachable (handlePrint s)"

text \<open>
  The invariant of the selection state: at most two students are selected for
  comparison, and every selected id and the focused id belong to a student of the
  roster. The ids of the roster are positive: the initial ones are, and a new id is a
  maximum plus one, or one.
\<close>

definition selection_valid :: "state \<Rightarrow> bool" where
  "selection_valid s =
     (length (selectedStudents s) \<le> 2
      \<and> set (selectedStudents s) \<subseteq> id' ` set (students s)
      \<and> (\<forall>f. selectedStudentForRadar s = Some f \<longrightarrow> f \<in> id' ` set (students s)))"

definition ids_positive :: "state \<Rightarrow> bool" where
  "ids_positive s = (\<forall>x \<in> set (students s). 0 < id' x)"

text \<open>
  Example states: two boxes checked and a row clicked; one box checked and another
  row clicked.
\<close>

definition twoSelected :: state where
  "twoSelected =
     rowClick 104 (checkboxChange 101 True (checkboxChange 104 True
       (initialState defaultPlaceholder)))"

definition oneSelected :: state where
  "oneSelected = rowClick 103 (checkboxChange 104 True (initialState defaultPlaceholder))"

text \<open>
  An example for the comparison chart: the first two students of the example roster
  are selected; they tie in English.
\<close>

definition comparisonExample :: state where
  "comparisonExample =
     \<lparr>students = tieRoster, selectedStudents = [1, 2], selectedStudentForRadar = None,
      insightPanel = multiplePlaceholder, comparisonModalActive = True\<rparr>"

text \<open>
  An example for the add form: a new roll number, two marks outside 0 to 100, a mark
  input without digits and an empty one.
\<close>

definition outOfRangeForm :: addForm where
  "outOfRangeForm =
     \<lparr>studentName = '' Bob '', rollNoInput = '' 200 '',
      markMath = ''150'', markScience = ''-5'', markEnglish = ''abc'',
      markHistory = [], markComputer = ''70''\<rparr>"

section \<open>The average\<close>

lemma Math_round_of_int: "Math_round (of_int k) = k"
  unfolding Math_round_def by linarith

lemma calculateAverage_exact:
  "calculateAverage
     \<lparr>math = Some a, science = Some b, english = Some c, history = Some d, computer = Some e\<rparr>
   = Some (of_int (a + b + c + d + e) / 5)"
proof -
  define t where "t = a + b + c + d + e"
  define m where
    "m = \<lparr>math = Some a, science = Some b, english = Some c, history = Some d, computer = Some e\<rparr>"
  have len: "length (Object_values m) = 5"
    by (simp add: Object_values_def)
  have sum: "fold (\<lambda>val acc. js_add acc val) (Object_values m) (Some 0) = Some t"
    by (simp add: Object_values_def js_add_def t_def m_def)
  have "(of_int t / (5::rat)) * 10 = of_int (2 * t)"
    by simp
  then have "Math_round ((of_int t / 5) * 10) = 2 * t"
    using Math_round_of_int by metis
  then have "of_int (Math_round ((of_int t / (5::rat)) * 10)) / (10::rat) = of_int t / 5"
    by simp
  then have "calculateAverage m = Some (of_int t / 5)"
    unfolding calculateAverage_def Let_def sum len by simp
  then show ?thesis unfolding m_def t_def .
qed

lemma numeric_marks:
  assumes "numeric m"
  obtains a b c d e where
    "m = \<lparr>math = Some a, science = Some b, english = Some c, history = Some d, computer = Some e\<rparr>"
proof -
  from assms obtain a b c d e where
    "math m = Some a" "science m = Some b" "english m = Some c" "history m = Some d"
    "computer m = Some e"
    by (auto simp: numeric_def Object_values_def)
  then have
    "m = \<lparr>math = Some a, science = Some b, english = Some c, history = Some d, computer = Some e\<rparr>"
    by (cases m) simp
  then show ?thesis by (rule that)
qed

lemma calculateAverage_numeric: "numeric m \<Longrightarrow> calculateAverage m \<noteq> None"
  by (erule numeric_marks) (simp add: calculateAverage_exact)

lemma fold_js_add_None: "fold (\<lambda>val acc. js_add acc val) vs None = None"
  by (induction vs) (simp_all add: js_add_def)

lemma fold_js_add_NaN:
  "None \<in> set vs \<Longrightarrow> fold (\<lambda>val acc. js_add acc val) vs acc = None"
proof (induction vs arbitrary: acc)
  case Nil
  then show ?case by simp
next
  case (Cons v vs)
  show ?case
  proof (cases v)
    case None
    then have "js_add acc v = None" by (simp add: js_add_def split: option.splits)
    then show ?thesis by (simp add: fold_js_add_None)
  next
    case (Some x)
    with Cons.prems have "None \<in> set vs" by auto
    then show ?thesis by (simp add: Cons.IH)
  qed
qed

lemma calculateAverage_NaN: "\<not> numeric m \<Longrightarrow> calculateAverage m = None"
proof -
  assume "\<not> numeric m"
  then have "None \<in> set (Object_values m)"
    by (auto simp: numeric_def list_all_iff)
  then show ?thesis
    by (simp add: calculateAverage_def Let_def fold_js_add_NaN)
qed

lemma round_half_away_tenths_fifth:
  "round_half_away_tenths (of_int t / 5) = of_int t / 5"
proof -
  have a: "of_int t / (5::rat) * 10 = of_int (2 * t)" by simp
  have b: "- (of_int t / (5::rat)) * 10 = of_int (- 2 * t)" by simp
  have fa: "\<lfloor>of_int t / (5::rat) * 10 + 1 / 2\<rfloor> = 2 * t"
    unfolding a by linarith
  have fb: "\<lfloor>- (of_int t / (5::rat)) * 10 + 1 / 2\<rfloor> = - 2 * t"
    unfolding b by linarith
  show ?thesis
    unfolding round_half_away_tenths_def fa fb by simp
qed

text \<open>
  Claim C8. For marks of the five subjects with integer values from 0 to 100,
  \<open>calculateAverage\<close> is the arithmetic mean of the five values rounded to one decimal
  place, a half away from zero; five marks of 90 average to 90.0, and the marks 95, 92,
  88, 90, 98 average to 92.6.
\<close>

theorem calculateAverage_rounded_mean:
  assumes "\<forall>v \<in> set [a, b, c, d, e]. 0 \<le> v \<and> v \<le> 100"
  shows "calculateAverage
      \<lparr>math = Some a, science = Some b, english = Some c, history = Some d, computer = Some e\<rparr>
      = Some (round_half_away_tenths (mean_of [a, b, c, d, e]))
    \<and> calculateAverage
        \<lparr>math = Some 90, science = Some 90, english = Some 90, history = Some 90,
         computer = Some 90\<rparr> = Some 90
    \<and> calculateAverage
        \<lparr>math = Some 95, science = Some 92, english = Some 88, history = Some 90,
         computer = Some 98\<rparr> = Some (926 / 10)"
proof -
  have "mean_of [a, b, c, d, e] = of_int (a + b + c + d + e) / 5"
    by (simp add: mean_of_def)
  then have "calculateAverage
      \<lparr>math = Some a, science = Some b, english = Some c, history = Some d, computer = Some e\<rparr>
      = Some (round_half_away_tenths (mean_of [a, b, c, d, e]))"
    by (simp only: round_half_away_tenths_fifth calculateAverage_exact)
  moreover have "calculateAverage
        \<lparr>math = Some 90, science = Some 90, english = Some 90, history = Some 90,
         computer = Some 90\<rparr> = Some 90"
    by (simp add: calculateAverage_exact)
  moreover have "calculateAverage
        \<lparr>math = Some 95, science = Some 92, english = Some 88, history = Some 90,
         computer = Some 98\<rparr> = Some (926 / 10)"
    by (simp add: calculateAverage_exact)
  ultimately show ?thesis by (intro conjI)
qed

theorem calculateAverage_rounded_mean_witness:
  "calculateAverage
     \<lparr>math = Some 65, science = Some 58, english = Some 70, history = Some 62,
      computer = Some 68\<rparr>
     = Some (round_half_away_tenths (mean_of [65, 58, 70, 62, 68]))
   \<and> round_half_away_tenths (mean_of [65, 58, 70, 62, 68]) = 646 / 10"
proof -
  have h: "\<forall>v \<in> set [65, 58, 70, 62, 68 :: int]. 0 \<le> v \<and> v \<le> 100"
    by simp
  have m: "mean_of [65, 58, 70, 62, 68] = of_int 323 / 5"
    by (simp add: mean_of_def)
  have "round_half_away_tenths (mean_of [65, 58, 70, 62, 68]) = 646 / 10"
    unfolding m round_half_away_tenths_fifth by simp
  moreover have "calculateAverage
     \<lparr>math = Some 65, science = Some 58, english = Some 70, history = Some 62,
      computer = Some 68\<rparr>
     = Some (round_half_away_tenths (mean_of [65, 58, 70, 62, 68]))"
    using calculateAverage_rounded_mean [OF h] by (elim conjE)
  ultimately show ?thesis by (intro conjI)
qed

section \<open>Sorting and ranks\<close>

lemma mset_insert_cmp: "mset (insert_cmp cmp x ys) = add_mset x (mset ys)"
  by (induction ys) auto

lemma mset_Array_sort: "mset (Array_sort cmp xs) = mset xs"
  unfolding Array_sort_def by (induction xs) (auto simp: mset_insert_cmp)

lemma set_insert_cmp: "set (insert_cmp cmp x ys) = insert x (set ys)"
  by (induction ys) auto

lemma sorted_insert_cmp:
  assumes anti: "\<And>a b. 0 < cmp a b \<Longrightarrow> cmp b a \<le> 0"
    and trans: "\<And>a b c. cmp a b \<le> 0 \<Longrightarrow> cmp b c \<le> 0 \<Longrightarrow> cmp a c \<le> 0"
  shows "sorted_wrt (\<lambda>a b. cmp a b \<le> 0) ys \<Longrightarrow> sorted_wrt (\<lambda>a b. cmp a b \<le> 0) (insert_cmp cmp x ys)"
proof (induction ys)
  case Nil
  then show ?case by simp
next
  case (Cons y ys)
  show ?case
  proof (cases "0 < cmp x y")
    case True
    then have "cmp y x \<le> 0" by (rule anti)
    with Cons True show ?thesis by (auto simp: set_insert_cmp)
  next
    case False
    then have xy: "cmp x y \<le> 0" by simp
    have "\<forall>z \<in> set ys. cmp x z \<le> 0"
      using Cons.prems xy trans by auto
    with Cons.prems xy False show ?thesis by auto
  qed
qed

lemma sorted_Array_sort:
  assumes anti: "\<And>a b. 0 < cmp a b \<Longrightarrow> cmp b a \<le> 0"
    and trans: "\<And>a b c. cmp a b \<le> 0 \<Longrightarrow> cmp b c \<le> 0 \<Longrightarrow> cmp a c \<le> 0"
  shows "sorted_wrt (\<lambda>a b. cmp a b \<le> 0) (Array_sort cmp xs)"
  unfolding Array_sort_def
  by (induction xs) (auto intro: sorted_insert_cmp [OF anti trans])

lemma set_Array_sort: "set (Array_sort cmp xs) = set xs"
  by (metis mset_Array_sort set_mset_mset)

lemma insert_cmp_cong:
  "\<forall>b \<in> set ys. cmp x b = cmp' x b \<Longrightarrow> insert_cmp cmp x ys = insert_cmp cmp' x ys"
  by (induction ys) auto

lemma Array_sort_cong:
  "\<forall>a \<in> set xs. \<forall>b \<in> set xs. cmp a b = cmp' a b \<Longrightarrow> Array_sort cmp xs = Array_sort cmp' xs"
proof (induction xs)
  case Nil
  then show ?case by (simp add: Array_sort_def)
next
  case (Cons x xs)
  then have IH: "Array_sort cmp xs = Array_sort cmp' xs" by simp
  have "\<forall>b \<in> set (Array_sort cmp' xs). cmp x b = cmp' x b"
    using Cons.prems by (simp add: set_Array_sort)
  then have "insert_cmp cmp x (Array_sort cmp' xs) = insert_cmp cmp' x (Array_sort cmp' xs)"
    by (rule insert_cmp_cong)
  with IH show ?case by (simp add: Array_sort_def)
qed

lemma js_lt_irrefl: "\<not> js_lt a a"
  by (simp add: js_lt_def split: option.splits)

lemma js_ge_not_lt: "js_ge a b \<Longrightarrow> \<not> js_lt a b"
  by (auto simp: js_lt_def js_ge_def split: option.splits)

lemma js_lt_ge_trans: "js_lt a b \<Longrightarrow> js_ge c b \<Longrightarrow> js_lt a c"
  by (auto simp: js_lt_def js_ge_def split: option.splits)

lemma js_ge_antisym: "js_ge a b \<Longrightarrow> \<not> js_lt b a \<Longrightarrow> a = b"
  by (auto simp: js_lt_def js_ge_def split: option.splits)

lemma js_ge_refl: "a \<noteq> None \<Longrightarrow> js_ge a a"
  by (auto simp: js_ge_def)

lemma js_Some [simp]:
  "js_lt (Some x) (Some y) \<longleftrightarrow> x < y"
  "js_ge (Some x) (Some y) \<longleftrightarrow> y \<le> x"
  by (simp_all add: js_lt_def js_ge_def)

lemma js_None [simp]:
  "\<not> js_lt None b" "\<not> js_lt a None" "\<not> js_ge None b" "\<not> js_ge a None"
  by (simp_all add: js_lt_def js_ge_def split: option.splits)

lemma sorted_by_average:
  fixes xs :: "studentWithAvg list"
  assumes "\<forall>x \<in> set xs. average x \<noteq> None"
  shows "sorted_wrt (\<lambda>a b. js_ge (average a) (average b))
           (Array_sort (\<lambda>a b. comparatorResult (js_sub (average b) (average a))) xs)"
proof -
  let ?cmp = "\<lambda>a b. comparatorResult (js_sub (average b) (average a))"
  let ?cmp' = "\<lambda>a b :: studentWithAvg. the (average b) - the (average a)"
  have "\<forall>a \<in> set xs. \<forall>b \<in> set xs. ?cmp a b = ?cmp' a b"
  proof (intro ballI)
    fix a b assume "a \<in> set xs" "b \<in> set xs"
    with assms obtain u v where "average a = Some u" "average b = Some v" by fastforce
    then show "?cmp a b = ?cmp' a b" by (simp add: js_sub_def)
  qed
  then have eq: "Array_sort ?cmp xs = Array_sort ?cmp' xs"
    by (rule Array_sort_cong)
  have srt: "sorted_wrt (\<lambda>a b. ?cmp' a b \<le> 0) (Array_sort ?cmp' xs)"
    by (rule sorted_Array_sort) auto
  have "sorted_wrt (\<lambda>a b. js_ge (average a) (average b)) (Array_sort ?cmp' xs)"
  proof (rule sorted_wrt_mono_rel [OF _ srt])
    fix a b assume "a \<in> set (Array_sort ?cmp' xs)" "b \<in> set (Array_sort ?cmp' xs)"
      and le: "?cmp' a b \<le> 0"
    then have "a \<in> set xs" "b \<in> set xs" by (simp_all add: set_Array_sort)
    with assms obtain u v where "average a = Some u" "average b = Some v" by fastforce
    with le show "js_ge (average a) (average b)" by simp
  qed
  then show ?thesis unfolding eq .
qed

lemma map_average_assignRanks: "map average (assignRanks i c p xs) = map average xs"
  by (induction xs arbitrary: i c p) (auto simp: Let_def)

lemma map_student_of_assignRanks:
  "map student_of (assignRanks i c p xs) = map (\<lambda>s. \<lparr>id' = id' s, rollNo = rollNo s, name = name s, marks = marks s\<rparr>) xs"
  by (induction xs arbitrary: i c p) (auto simp: Let_def student_of_def)

lemma rank_assignRanks:
  assumes "sorted_wrt (\<lambda>a b. js_ge (average a) (average b)) (pre @ rest)"
    and "\<forall>x \<in> set (pre @ rest). average x \<noteq> None"
    and "i = length pre"
    and "pre = [] \<Longrightarrow> cur = 1"
    and "pre \<noteq> [] \<Longrightarrow> prev = average (last pre) \<and> cur = 1 + higher prev (map average pre)"
  shows "map rank (assignRanks i cur prev rest) =
         map (\<lambda>x. 1 + higher (average x) (map average (pre @ rest))) rest"
  using assms
proof (induction rest arbitrary: pre i cur prev)
  case Nil
  then show ?case by simp
next
  case (Cons s rest)
  define cur' where "cur' = (if 0 < i \<and> js_lt (average s) prev then i + 1 else cur)"
  have later: "\<forall>y \<in> set rest. js_ge (average s) (average y)"
    using Cons.prems(1) by (auto simp: sorted_wrt_append)
  have earlier: "\<forall>y \<in> set pre. js_ge (average y) (average s)"
    using Cons.prems(1) by (auto simp: sorted_wrt_append)
  have "\<forall>y \<in> set (s # rest). \<not> js_lt (average s) (average y)"
    using later js_ge_not_lt js_lt_irrefl by auto
  then have tail0: "higher (average s) (map average (s # rest)) = 0"
    by (auto simp: higher_def filter_empty_conv)
  have split: "higher (average s) (map average (pre @ s # rest)) = higher (average s) (map average pre)"
    using tail0 by (simp add: higher_def)
  have cur'_ok: "cur' = 1 + higher (average s) (map average pre)"
  proof (cases "pre = []")
    case True
    with Cons.prems show ?thesis by (simp add: cur'_def higher_def)
  next
    case False
    with Cons.prems have pv: "prev = average (last pre)" and cv: "cur = 1 + higher prev (map average pre)"
      and ipos: "0 < i" by auto
    have lastmem: "last pre \<in> set pre" using False by simp
    have lastle: "\<forall>y \<in> set pre. js_ge (average y) prev"
    proof
      fix y assume y: "y \<in> set pre"
      have "sorted_wrt (\<lambda>a b. js_ge (average a) (average b)) pre"
        using Cons.prems(1) by (simp add: sorted_wrt_append)
      then have "sorted_wrt (\<lambda>a b. js_ge (average a) (average b)) (butlast pre @ [last pre])"
        using False by simp
      then have bl: "\<forall>y \<in> set (butlast pre). js_ge (average y) (average (last pre))"
        by (simp add: sorted_wrt_append)
      have "set pre = set (butlast pre @ [last pre])" using False by simp
      then have "y = last pre \<or> y \<in> set (butlast pre)" using y by auto
      moreover have "js_ge (average (last pre)) (average (last pre))"
        using lastmem Cons.prems(2) by (simp add: js_ge_refl)
      ultimately show "js_ge (average y) prev" using pv bl by auto
    qed
    have ge: "js_ge prev (average s)" using earlier lastmem pv by simp
    show ?thesis
    proof (cases "js_lt (average s) prev")
      case True
      then have "\<forall>y \<in> set pre. js_lt (average s) (average y)"
        using lastle js_lt_ge_trans by blast
      then have "filter (\<lambda>b. js_lt (average s) b) (map average pre) = map average pre"
        by (auto simp: filter_id_conv)
      then have "higher (average s) (map average pre) = length pre" by (simp add: higher_def)
      with True ipos Cons.prems(3) show ?thesis by (simp add: cur'_def)
    next
      case False
      with ge have "prev = average s" by (rule js_ge_antisym)
      with False cv show ?thesis by (simp add: cur'_def)
    qed
  qed
  have IH: "map rank (assignRanks (i + 1) cur' (average s) rest) =
         map (\<lambda>x. 1 + higher (average x) (map average ((pre @ [s]) @ rest))) rest"
  proof (rule Cons.IH)
    show "sorted_wrt (\<lambda>a b. js_ge (average a) (average b)) ((pre @ [s]) @ rest)"
      using Cons.prems(1) by simp
    show "\<forall>x \<in> set ((pre @ [s]) @ rest). average x \<noteq> None"
      using Cons.prems(2) by simp
    show "i + 1 = length (pre @ [s])" using Cons.prems(3) by simp
    show "pre @ [s] = [] \<Longrightarrow> cur' = 1" by simp
    show "pre @ [s] \<noteq> [] \<Longrightarrow>
      average s = average (last (pre @ [s])) \<and> cur' = 1 + higher (average s) (map average (pre @ [s]))"
      using cur'_ok by (simp add: higher_def js_lt_irrefl)
  qed
  show ?case
    using IH cur'_ok split by (simp add: Let_def cur'_def [symmetric])
qed

lemma student_of_withAverage:
  "\<lparr>id' = id' (withAverage s), rollNo = rollNo (withAverage s), name = name (withAverage s),
     marks = marks (withAverage s)\<rparr> = s"
  by (simp add: withAverage_def)

lemma calculateRanks_students:
  "mset (map student_of (calculateRanks roster)) = mset roster"
proof -
  let ?f = "\<lambda>s::studentWithAvg. \<lparr>id' = id' s, rollNo = rollNo s, name = name s, marks = marks s\<rparr>"
  let ?srt = "Array_sort (\<lambda>a b. comparatorResult (js_sub (average b) (average a)))
                (map withAverage roster)"
  have "mset (map student_of (calculateRanks roster)) = image_mset ?f (mset ?srt)"
    by (simp add: calculateRanks_def map_student_of_assignRanks)
  also have "\<dots> = image_mset ?f (mset (map withAverage roster))"
    by (simp only: mset_Array_sort)
  also have "\<dots> = mset (map (\<lambda>s. ?f (withAverage s)) roster)"
    by (simp add: image_mset.compositionality comp_def)
  also have "\<dots> = mset roster"
    by (simp only: student_of_withAverage map_ident)
  finally show ?thesis .
qed

lemma average_assignRanks:
  "\<forall>x \<in> set xs. average x = calculateAverage (marks x) \<Longrightarrow>
   \<forall>x \<in> set (assignRanks i c p xs). average x = calculateAverage (marks x)"
  by (induction xs arbitrary: i c p) (auto simp: Let_def)

lemma calculateRanks_average:
  "\<forall>x \<in> set (calculateRanks roster). average x = calculateAverage (marks x)"
  unfolding calculateRanks_def Let_def
  by (rule average_assignRanks) (auto simp: set_Array_sort withAverage_def)

lemma withAverage_numeric:
  assumes "numeric_roster roster"
  shows "\<forall>x \<in> set (map withAverage roster). average x \<noteq> None"
proof
  fix x assume "x \<in> set (map withAverage roster)"
  then obtain s where s: "s \<in> set roster" and x: "x = withAverage s" by auto
  from s assms have "numeric (marks s)"
    by (simp add: numeric_roster_def list_all_iff)
  then have "calculateAverage (marks s) \<noteq> None" by (rule calculateAverage_numeric)
  then show "average x \<noteq> None" unfolding x by (simp add: withAverage_def)
qed

lemma calculateRanks_numeric:
  assumes "numeric_roster roster"
  shows "\<forall>x \<in> set (calculateRanks roster). average x \<noteq> None"
proof
  fix x assume "x \<in> set (calculateRanks roster)"
  then have "average x \<in> set (map average (calculateRanks roster))" by simp
  then have "average x \<in> set (map average
      (Array_sort (\<lambda>a b. comparatorResult (js_sub (average b) (average a)))
         (map withAverage roster)))"
    unfolding calculateRanks_def Let_def map_average_assignRanks .
  then obtain y where "y \<in> set (map withAverage roster)" "average x = average y"
    unfolding set_map set_Array_sort by auto
  then show "average x \<noteq> None" using withAverage_numeric [OF assms] by metis
qed

lemma calculateRanks_sorted:
  assumes "numeric_roster roster"
  shows "sorted_wrt (\<lambda>a b. js_ge (average a) (average b)) (calculateRanks roster)"
proof -
  have "sorted_wrt (\<lambda>a b. js_ge a b) (map average (calculateRanks roster))"
    unfolding calculateRanks_def Let_def map_average_assignRanks
    using sorted_by_average [OF withAverage_numeric [OF assms]] by (simp add: sorted_wrt_map)
  then show ?thesis by (simp add: sorted_wrt_map)
qed

lemma calculateRanks_rank:
  assumes "numeric_roster roster"
  shows "map rank (calculateRanks roster) =
   map (\<lambda>x. 1 + higher (average x) (map average (calculateRanks roster))) (calculateRanks roster)"
proof -
  let ?srt = "Array_sort (\<lambda>a b. comparatorResult (js_sub (average b) (average a)))
                (map withAverage roster)"
  have num: "\<forall>x \<in> set ([] @ ?srt). average x \<noteq> None"
    using withAverage_numeric [OF assms] by (simp add: set_Array_sort)
  have srt: "sorted_wrt (\<lambda>a b. js_ge (average a) (average b)) ([] @ ?srt)"
    using sorted_by_average [OF withAverage_numeric [OF assms]] by simp
  have "map rank (assignRanks 0 1 None ?srt) =
        map (\<lambda>x. 1 + higher (average x) (map average ([] @ ?srt))) ?srt"
    using srt num by (rule rank_assignRanks) simp_all
  then have "map rank (assignRanks 0 1 None ?srt) =
        map (\<lambda>a. 1 + higher a (map average ?srt)) (map average ?srt)"
    by (simp add: comp_def)
  also have "\<dots> = map (\<lambda>a. 1 + higher a (map average (assignRanks 0 1 None ?srt)))
                     (map average (assignRanks 0 1 None ?srt))"
    by (simp only: map_average_assignRanks)
  finally show ?thesis
    by (simp add: calculateRanks_def comp_def)
qed

text \<open>
  Claim C1. For every roster of students whose marks are numbers, as the data model
  has them, \<open>calculateRanks\<close> returns the students sorted by average, highest first,
  each with the average of its marks, and ranks them as in a competition: the rank of
  a student is 1 plus the number of students whose average is strictly higher, so
  students with equal averages share a rank. Averages 70, 70 and 60 receive the ranks
  1, 1 and 3.
\<close>

theorem calculateRanks_competition_ranks:
  assumes "numeric_roster roster"
  shows "sorted_wrt (\<lambda>a b. js_ge (average a) (average b)) (calculateRanks roster)
   \<and> mset (map student_of (calculateRanks roster)) = mset roster
   \<and> (\<forall>x \<in> set (calculateRanks roster).
         average x = calculateAverage (marks x) \<and> average x \<noteq> None
         \<and> rank x = 1 + length (filter (\<lambda>y. js_lt (average x) (average y))
                                  (calculateRanks roster)))
   \<and> (\<forall>x \<in> set (calculateRanks roster). \<forall>y \<in> set (calculateRanks roster).
         average x = average y \<longrightarrow> rank x = rank y)
   \<and> map average (calculateRanks tieRoster) = [Some 70, Some 70, Some 60]
   \<and> map rank (calculateRanks tieRoster) = [1, 1, 3]"
proof -
  let ?r = "calculateRanks roster"
  have rk: "\<forall>x \<in> set ?r. rank x = 1 + length (filter (\<lambda>y. js_lt (average x) (average y)) ?r)"
  proof
    fix x assume "x \<in> set ?r"
    then have "rank x = 1 + higher (average x) (map average ?r)"
      using calculateRanks_rank [OF assms] by (simp only: map_eq_conv)
    also have "higher (average x) (map average ?r)
        = length (filter (\<lambda>y. js_lt (average x) (average y)) ?r)"
      by (simp add: higher_def filter_map comp_def)
    finally show "rank x = 1 + length (filter (\<lambda>y. js_lt (average x) (average y)) ?r)" .
  qed
  have both: "\<forall>x \<in> set ?r. average x = calculateAverage (marks x) \<and> average x \<noteq> None
         \<and> rank x = 1 + length (filter (\<lambda>y. js_lt (average x) (average y)) ?r)"
    using rk calculateRanks_average [of roster] calculateRanks_numeric [OF assms] by blast
  have ties: "\<forall>x \<in> set ?r. \<forall>y \<in> set ?r. average x = average y \<longrightarrow> rank x = rank y"
  proof (intro ballI impI)
    fix x y assume "x \<in> set ?r" "y \<in> set ?r" "average x = average y"
    then show "rank x = rank y" using rk by metis
  qed
  have ex1: "map average (calculateRanks tieRoster) = [Some 70, Some 70, Some 60]"
    by code_simp
  have ex2: "map rank (calculateRanks tieRoster) = [1, 1, 3]"
    by code_simp
  from calculateRanks_sorted [OF assms] calculateRanks_students [of roster] both ties ex1 ex2
  show ?thesis by (intro conjI)
qed

lemma numeric_studentsData: "numeric_roster studentsData"
  by (simp add: numeric_roster_def numeric_def Object_values_def studentsData_def)

theorem calculateRanks_competition_ranks_witness:
  "sorted_wrt (\<lambda>a b. js_ge (average a) (average b)) (calculateRanks studentsData)
   \<and> mset (map student_of (calculateRanks studentsData)) = mset studentsData
   \<and> map id' (calculateRanks studentsData) = [104, 101, 103, 102, 105]
   \<and> map rank (calculateRanks studentsData) = [1, 2, 3, 4, 5]"
proof -
  note th = calculateRanks_competition_ranks [OF numeric_studentsData]
  have "map id' (calculateRanks studentsData) = [104, 101, 103, 102, 105]"
    by code_simp
  moreover have "map rank (calculateRanks studentsData) = [1, 2, 3, 4, 5]"
    by code_simp
  moreover have "sorted_wrt (\<lambda>a b. js_ge (average a) (average b)) (calculateRanks studentsData)"
    using th by (elim conjE)
  moreover have "mset (map student_of (calculateRanks studentsData)) = mset studentsData"
    using th by (elim conjE)
  ultimately show ?thesis by (intro conjI)
qed

section \<open>The query pipeline\<close>

lemma startsWith_iff: "startsWith s t \<longleftrightarrow> (\<exists>post. s = t @ post)"
  by (induction s t rule: startsWith.induct) auto

lemma String_includes_iff: "String_includes s t \<longleftrightarrow> (\<exists>pre post. s = pre @ t @ post)"
proof (induction s)
  case Nil
  then show ?case by auto
next
  case (Cons c s)
  show ?case
  proof
    assume "String_includes (c # s) t"
    then consider "startsWith (c # s) t" | "String_includes s t" by auto
    then show "\<exists>pre post. c # s = pre @ t @ post"
    proof cases
      case 1
      then obtain post where "c # s = t @ post" by (auto simp: startsWith_iff)
      then have "c # s = [] @ t @ post" by simp
      then show ?thesis by blast
    next
      case 2
      then obtain pre post where "s = pre @ t @ post" using Cons.IH by auto
      then have "c # s = (c # pre) @ t @ post" by simp
      then show ?thesis by blast
    qed
  next
    assume "\<exists>pre post. c # s = pre @ t @ post"
    then obtain pre post where eq: "c # s = pre @ t @ post" by auto
    show "String_includes (c # s) t"
    proof (cases pre)
      case Nil
      with eq have "startsWith (c # s) t" by (auto simp: startsWith_iff)
      then show ?thesis by simp
    next
      case (Cons p pre')
      with eq have "s = pre' @ t @ post" by simp
      then have "String_includes s t" using Cons.IH by blast
      then show ?thesis by simp
    qed
  qed
qed

lemma codeUnitCompare_le_Cons:
  "codeUnitCompare (x # xs) (y # ys) \<le> 0 \<longleftrightarrow>
     (of_char x :: nat) < of_char y \<or> ((of_char x :: nat) = of_char y \<and> codeUnitCompare xs ys \<le> 0)"
  by auto

lemma codeUnitCompare_le_Nil: "codeUnitCompare xs [] \<le> 0 \<longleftrightarrow> xs = []"
  by (cases xs) auto

lemma codeUnitCompare_Nil_le: "codeUnitCompare [] ys \<le> 0"
  by (cases ys) auto

lemma codeUnitCompare_trans:
  "codeUnitCompare a b \<le> 0 \<Longrightarrow> codeUnitCompare b c \<le> 0 \<Longrightarrow> codeUnitCompare a c \<le> 0"
proof (induction a arbitrary: b c)
  case Nil
  then show ?case by (simp only: codeUnitCompare_Nil_le)
next
  case (Cons x xs)
  from Cons.prems(1) obtain y ys where b: "b = y # ys"
    by (cases b) (simp_all add: codeUnitCompare_le_Nil)
  from Cons.prems(2) b obtain z zs where c: "c = z # zs"
    by (cases c) (simp_all add: codeUnitCompare_le_Nil)
  from Cons.prems(1) b
  have ab: "(of_char x :: nat) < of_char y \<or> ((of_char x :: nat) = of_char y \<and> codeUnitCompare xs ys \<le> 0)"
    by (simp only: codeUnitCompare_le_Cons)
  from Cons.prems(2) b c
  have bc: "(of_char y :: nat) < of_char z \<or> ((of_char y :: nat) = of_char z \<and> codeUnitCompare ys zs \<le> 0)"
    by (simp only: codeUnitCompare_le_Cons)
  have "(of_char x :: nat) < of_char z \<or> ((of_char x :: nat) = of_char z \<and> codeUnitCompare xs zs \<le> 0)"
    using ab bc Cons.IH [of ys zs] by auto
  then show ?case unfolding c by (simp only: codeUnitCompare_le_Cons)
qed

lemma codeUnitCompare_anti: "0 < codeUnitCompare a b \<Longrightarrow> codeUnitCompare b a \<le> 0"
  by (induction a b rule: codeUnitCompare.induct) (auto split: if_splits)

lemma consistent_codeUnitCompare: "consistent_comparator codeUnitCompare"
  unfolding consistent_comparator_def
  using codeUnitCompare_anti codeUnitCompare_trans by blast

lemma matches_search_Nil: "matches_search [] s"
proof -
  have "toLowerCase (name s) = [] @ [] @ toLowerCase (name s)" by simp
  then show ?thesis unfolding matches_search_def by blast
qed

lemma renderTable_filtered:
  "renderTable localeCompare searchInput filter' sort' roster =
     (let kept = filter (\<lambda>s. matches_search (String_trim (toLowerCase searchInput)) s
                              \<and> matches_category filter' s) (calculateRanks roster)
      in if sort' = ''name'' then Array_sort (\<lambda>a b. localeCompare (name a) (name b)) kept
         else if sort' = ''roll'' then Array_sort (\<lambda>a b. localeCompare (rollNo a) (rollNo b)) kept
         else kept)"
proof -
  define needle where "needle = String_trim (toLowerCase searchInput)"
  define ranked where "ranked = calculateRanks roster"
  have search: "(if needle \<noteq> [] then
               filter (\<lambda>s. String_includes (toLowerCase (name s)) needle
                          \<or> String_includes (toLowerCase (rollNo s)) needle) ranked
             else ranked) = filter (matches_search needle) ranked"
  proof (cases "needle = []")
    case True
    then show ?thesis by (simp add: matches_search_Nil)
  next
    case False
    have "(\<lambda>s. String_includes (toLowerCase (name s)) needle
              \<or> String_includes (toLowerCase (rollNo s)) needle) = matches_search needle"
      by (rule ext) (simp add: matches_search_def String_includes_iff)
    with False show ?thesis by simp
  qed
  have cat: "(if filter' = ''top'' then filter (\<lambda>s. js_ge (average s) (Some 75)) xs
             else if filter' = ''below'' then filter (\<lambda>s. js_lt (average s) (Some 50)) xs
             else xs) = filter (matches_category filter') xs" for xs :: "rankedStudent list"
  proof -
    have "(\<lambda>s::rankedStudent. js_ge (average s) (Some 75)) = matches_category ''top''"
      by (rule ext) (simp add: matches_category_def)
    moreover have "(\<lambda>s::rankedStudent. js_lt (average s) (Some 50)) = matches_category ''below''"
      by (rule ext) (simp add: matches_category_def)
    moreover have "filter' \<noteq> ''top'' \<Longrightarrow> filter' \<noteq> ''below'' \<Longrightarrow> filter (matches_category filter') xs = xs"
      by (simp add: matches_category_def)
    ultimately show ?thesis by simp
  qed
  show ?thesis
    unfolding renderTable_def Let_def needle_def [symmetric] ranked_def [symmetric] search cat
    by (simp add: conj_commute)
qed

lemma sorted_Array_sort_on:
  assumes "consistent_comparator cmp"
  shows "sorted_wrt (\<lambda>a b. cmp (f a) (f b) \<le> 0) (Array_sort (\<lambda>a b. cmp (f a) (f b)) xs)"
proof (rule sorted_Array_sort)
  show "\<And>a b. 0 < cmp (f a) (f b) \<Longrightarrow> cmp (f b) (f a) \<le> 0"
    using assms unfolding consistent_comparator_def by blast
  show "\<And>a b c. cmp (f a) (f b) \<le> 0 \<Longrightarrow> cmp (f b) (f c) \<le> 0 \<Longrightarrow> cmp (f a) (f c) \<le> 0"
    using assms unfolding consistent_comparator_def by blast
qed

text \<open>
  Claim C2. For every roster and every search input, category and sort key,
  \<open>renderTable\<close> keeps exactly the ranked students that match both the search term
  (the trimmed, lower-cased input occurs in the lower-cased name or roll number; the
  empty term occurs everywhere) and the category (top: average at least 75, below:
  average under 50, otherwise all). The rows are rows of the global ranking, rank
  field included; the default order is the rank order, and the orders by name and by
  roll number are sorted by the comparator. The rows are a function of the roster and
  the three criteria.
\<close>

theorem renderTable_pipeline:
  "mset (renderTable localeCompare searchInput filter' sort' roster) =
     mset (filter (\<lambda>s. matches_search (String_trim (toLowerCase searchInput)) s
                         \<and> matches_category filter' s) (calculateRanks roster))
   \<and> set (renderTable localeCompare searchInput filter' sort' roster) \<subseteq> set (calculateRanks roster)
   \<and> (sort' \<noteq> ''name'' \<and> sort' \<noteq> ''roll'' \<longrightarrow>
        renderTable localeCompare searchInput filter' sort' roster =
          filter (\<lambda>s. matches_search (String_trim (toLowerCase searchInput)) s
                       \<and> matches_category filter' s) (calculateRanks roster))
   \<and> (consistent_comparator localeCompare \<and> sort' = ''name'' \<longrightarrow>
        sorted_wrt (\<lambda>a b. localeCompare (name a) (name b) \<le> 0)
          (renderTable localeCompare searchInput filter' sort' roster))
   \<and> (consistent_comparator localeCompare \<and> sort' = ''roll'' \<longrightarrow>
        sorted_wrt (\<lambda>a b. localeCompare (rollNo a) (rollNo b) \<le> 0)
          (renderTable localeCompare searchInput filter' sort' roster))"
proof -
  let ?kept = "filter (\<lambda>s. matches_search (String_trim (toLowerCase searchInput)) s
                         \<and> matches_category filter' s) (calculateRanks roster)"
  let ?view = "renderTable localeCompare searchInput filter' sort' roster"
  have m: "mset ?view = mset ?kept"
    by (simp add: renderTable_filtered Let_def mset_Array_sort)
  have "set ?view = set ?kept"
    using m by (rule mset_eq_setD)
  then have sub: "set ?view \<subseteq> set (calculateRanks roster)"
    by auto
  have d: "sort' \<noteq> ''name'' \<and> sort' \<noteq> ''roll'' \<longrightarrow> ?view = ?kept"
    by (simp add: renderTable_filtered Let_def)
  have n: "consistent_comparator localeCompare \<and> sort' = ''name'' \<longrightarrow>
        sorted_wrt (\<lambda>a b. localeCompare (name a) (name b) \<le> 0) ?view"
    by (simp add: renderTable_filtered Let_def sorted_Array_sort_on)
  have r: "consistent_comparator localeCompare \<and> sort' = ''roll'' \<longrightarrow>
        sorted_wrt (\<lambda>a b. localeCompare (rollNo a) (rollNo b) \<le> 0) ?view"
    by (simp add: renderTable_filtered Let_def sorted_Array_sort_on)
  from m sub d n r show ?thesis by (intro conjI)
qed

theorem renderTable_pipeline_witness:
  "sorted_wrt (\<lambda>a b. codeUnitCompare (name a) (name b) \<le> 0)
     (renderTable codeUnitCompare '' A '' ''all'' ''name'' studentsData)
   \<and> set (renderTable codeUnitCompare '' A '' ''all'' ''name'' studentsData)
       \<subseteq> set (calculateRanks studentsData)
   \<and> map id' (renderTable codeUnitCompare '' A '' ''all'' ''name'' studentsData)
       = [101, 104, 102, 103, 105]
   \<and> map rank (renderTable codeUnitCompare '' A '' ''all'' ''name'' studentsData)
       = [2, 1, 4, 3, 5]
   \<and> map id' (renderTable codeUnitCompare ''104'' ''all'' ''rank'' studentsData) = [104]
   \<and> map id' (renderTable codeUnitCompare [] ''below'' ''roll'' studentsData) = [105]"
proof -
  note th = renderTable_pipeline [of codeUnitCompare "'' A ''" "''all''" "''name''" studentsData]
  have hyp: "consistent_comparator codeUnitCompare \<and> ''name'' = ''name''"
    by (simp add: consistent_codeUnitCompare)
  have a0: "consistent_comparator codeUnitCompare \<and> ''name'' = ''name'' \<longrightarrow>
     sorted_wrt (\<lambda>a b. codeUnitCompare (name a) (name b) \<le> 0)
       (renderTable codeUnitCompare '' A '' ''all'' ''name'' studentsData)"
    using th by (elim conjE)
  have a: "sorted_wrt (\<lambda>a b. codeUnitCompare (name a) (name b) \<le> 0)
     (renderTable codeUnitCompare '' A '' ''all'' ''name'' studentsData)"
    using a0 hyp by (rule mp)
  have b: "set (renderTable codeUnitCompare '' A '' ''all'' ''name'' studentsData)
       \<subseteq> set (calculateRanks studentsData)"
    using th by (elim conjE)
  have c: "map id' (renderTable codeUnitCompare '' A '' ''all'' ''name'' studentsData)
       = [101, 104, 102, 103, 105]"
    by code_simp
  have d: "map rank (renderTable codeUnitCompare '' A '' ''all'' ''name'' studentsData)
       = [2, 1, 4, 3, 5]"
    by code_simp
  have e: "map id' (renderTable codeUnitCompare ''104'' ''all'' ''rank'' studentsData) = [104]"
    by code_simp
  have f: "map id' (renderTable codeUnitCompare [] ''below'' ''roll'' studentsData) = [105]"
    by code_simp
  from a b c d e f show ?thesis by (intro conjI)
qed

section \<open>The selection state\<close>

lemma showInsight_frame [simp]:
  "students (showInsight i s) = students s"
  "selectedStudents (showInsight i s) = selectedStudents s"
  "selectedStudentForRadar (showInsight i s) = selectedStudentForRadar s"
  "comparisonModalActive (showInsight i s) = comparisonModalActive s"
  by (simp_all add: showInsight_def split: option.splits)

lemma restoreInsightState_frame [simp]:
  "students (restoreInsightState s) = students s"
  "selectedStudents (restoreInsightState s) = selectedStudents s"
  "selectedStudentForRadar (restoreInsightState s) = selectedStudentForRadar s"
  "comparisonModalActive (restoreInsightState s) = comparisonModalActive s"
  by (simp_all add: restoreInsightState_def)

lemma updateAllVisuals_frame [simp]:
  "students (updateAllVisuals s) = students s"
  "selectedStudents (updateAllVisuals s) = selectedStudents s"
  "comparisonModalActive (updateAllVisuals s) = comparisonModalActive s"
  by (simp_all add: updateAllVisuals_def split: option.splits)

lemma find_id_None: "find (\<lambda>x. id' x = i) xs = None \<longleftrightarrow> i \<notin> id' ` set xs"
  by (auto simp: find_None_iff)

lemma find_id_Some: "find (\<lambda>x. id' x = i) xs = Some st \<Longrightarrow> st \<in> set xs \<and> id' st = i"
  by (auto simp: find_Some_iff)

lemma find_id_Some_mem: "find (\<lambda>x. id' x = i) xs = Some st \<Longrightarrow> i \<in> id' ` set xs"
  using find_id_None [of i xs] by auto

lemma updateAllVisuals_focus:
  "selectedStudentForRadar (updateAllVisuals s) =
     (case selectedStudentForRadar s of
        None \<Rightarrow> None
      | Some f \<Rightarrow> if f \<noteq> 0 \<and> f \<notin> id' ` set (students s) then None else Some f)"
proof (cases "selectedStudentForRadar s")
  case None
  then show ?thesis by (simp add: updateAllVisuals_def)
next
  case (Some f)
  show ?thesis
  proof (cases "find (\<lambda>x. id' x = f) (students s)")
    case None
    with Some show ?thesis
      by (simp add: updateAllVisuals_def find_id_None [symmetric])
  next
    case (Some st)
    then have "f \<in> id' ` set (students s)" by (rule find_id_Some_mem)
    with Some \<open>selectedStudentForRadar s = Some f\<close> show ?thesis
      by (simp add: updateAllVisuals_def)
  qed
qed

lemma ids_updateFound: "map id' (updateFound i (\<lambda>x. x\<lparr>marks := g x\<rparr>) xs) = map id' xs"
  by (induction xs) auto

lemma fold_max_ge: "(x::int) \<le> fold max xs x"
  by (induction xs arbitrary: x) (auto intro: order_trans [OF max.cobounded2])

lemma new_id_positive:
  "\<forall>i \<in> set ids. (0::int) < i \<Longrightarrow> 0 < (case ids of [] \<Rightarrow> 1 | x # xs \<Rightarrow> fold max xs x + 1)"
proof (cases ids)
  case Nil
  then show ?thesis by simp
next
  case (Cons x xs)
  assume "\<forall>i \<in> set ids. (0::int) < i"
  with Cons have "0 < x" by simp
  moreover have "x \<le> fold max xs x" by (rule fold_max_ge)
  ultimately show ?thesis using Cons by simp
qed

lemma wf_updateAllVisuals:
  assumes "selection_valid s" "ids_positive s"
  shows "selection_valid (updateAllVisuals s) \<and> ids_positive (updateAllVisuals s)"
  using assms
  by (auto simp: selection_valid_def ids_positive_def updateAllVisuals_focus split: option.splits)

lemma wf_checkboxChange:
  assumes "selection_valid s" "ids_positive s" "i \<in> id' ` set (students s)"
  shows "selection_valid (checkboxChange i c s) \<and> ids_positive (checkboxChange i c s)"
proof -
  have "length (filter (\<lambda>j. j \<noteq> i) (selectedStudents s)) \<le> 2"
    using assms(1) unfolding selection_valid_def by (meson length_filter_le order_trans)
  moreover have "set (filter (\<lambda>j. j \<noteq> i) (selectedStudents s)) \<subseteq> id' ` set (students s)"
    using assms(1) unfolding selection_valid_def by auto
  ultimately show ?thesis
    using assms by (simp add: selection_valid_def ids_positive_def checkboxChange_def)
qed

lemma wf_addStudent:
  assumes "selection_valid s" "ids_positive s"
  shows "selection_valid (addStudent d s) \<and> ids_positive (addStudent d s)"
proof -
  let ?new = "\<lparr>id' = (case map id' (students s) of [] \<Rightarrow> 1 | x # xs \<Rightarrow> fold max xs x + 1),
      rollNo = rollNo' d, name = name' d, marks = marks' d\<rparr>"
  let ?s1 = "s\<lparr>students := students s @ [?new]\<rparr>"
  have "0 < id' ?new"
    using new_id_positive [of "map id' (students s)"] assms(2) by (simp add: ids_positive_def)
  then have "ids_positive ?s1" using assms(2) by (auto simp: ids_positive_def)
  moreover have "selection_valid ?s1" using assms(1) by (auto simp: selection_valid_def)
  ultimately show ?thesis
    using wf_updateAllVisuals [of ?s1] by (simp add: addStudent_def Let_def)
qed

lemma filter_ne_absent: "i \<notin> set xs \<Longrightarrow> filter (\<lambda>j. j \<noteq> i) xs = xs"
  by (induction xs) auto

lemma deleteStudent_students:
  "students (deleteStudent i s) = filter (\<lambda>x. id' x \<noteq> i) (students s)"
  by (simp add: deleteStudent_def Let_def closeComparisonModal_def)

lemma deleteStudent_selected:
  "selectedStudents (deleteStudent i s) = filter (\<lambda>j. j \<noteq> i) (selectedStudents s)"
  by (simp add: deleteStudent_def Let_def closeComparisonModal_def filter_ne_absent)

lemma deleteStudent_focus:
  "selectedStudentForRadar (deleteStudent i s) =
     (case selectedStudentForRadar s of
        None \<Rightarrow> None
      | Some f \<Rightarrow>
          if f \<noteq> 0 \<and> f \<notin> id' ` set (filter (\<lambda>x. id' x \<noteq> i) (students s)) then None
          else Some f)"
  by (simp add: deleteStudent_def Let_def closeComparisonModal_def updateAllVisuals_focus
      split: option.splits)

lemma wf_deleteStudent:
  assumes "selection_valid s" "ids_positive s"
  shows "selection_valid (deleteStudent i s) \<and> ids_positive (deleteStudent i s)"
proof -
  have len: "length (selectedStudents (deleteStudent i s)) \<le> 2"
    using assms(1) unfolding deleteStudent_selected selection_valid_def
    by (meson length_filter_le order_trans)
  have sel: "set (selectedStudents (deleteStudent i s)) \<subseteq> id' ` set (students (deleteStudent i s))"
    using assms(1) unfolding deleteStudent_selected deleteStudent_students selection_valid_def
    by auto
  have foc: "\<forall>f. selectedStudentForRadar (deleteStudent i s) = Some f \<longrightarrow>
      f \<in> id' ` set (students (deleteStudent i s))"
  proof (intro allI impI)
    fix f assume a: "selectedStudentForRadar (deleteStudent i s) = Some f"
    then have b: "selectedStudentForRadar s = Some f"
      unfolding deleteStudent_focus by (simp split: option.splits if_splits)
    then have "f \<in> id' ` set (students s)"
      using assms(1) unfolding selection_valid_def by blast
    then have "f \<noteq> 0" using assms(2) unfolding ids_positive_def by auto
    with a b show "f \<in> id' ` set (students (deleteStudent i s))"
      unfolding deleteStudent_focus deleteStudent_students by (simp split: if_splits)
  qed
  have pos: "ids_positive (deleteStudent i s)"
    using assms(2) unfolding ids_positive_def deleteStudent_students by simp
  from len sel foc pos show ?thesis unfolding selection_valid_def by blast
qed

lemma handleMarkEdit_cases:
  "handleMarkEdit i subject raw s =
     (case find (\<lambda>x. id' x = i) (students s) of
        None \<Rightarrow> Inl TypeError
      | Some st \<Rightarrow>
          (case parseInt (String_trim raw) of
             None \<Rightarrow> Inr (mark_at (marks st) subject, s)
           | Some v \<Rightarrow>
               if v < 0 \<or> 100 < v then Inr (mark_at (marks st) subject, s)
               else Inr (Some v, updateAllVisuals
                      (s\<lparr>students :=
                           updateFound i (\<lambda>x. x\<lparr>marks := mark_set (marks x) subject (Some v)\<rparr>)
                             (students s)\<rparr>))))"
  by (simp add: handleMarkEdit_def Let_def isNaN_def split: option.splits)

lemma set_updateFound_ids:
  "id' ` set (updateFound i (\<lambda>x. x\<lparr>marks := g x\<rparr>) xs) = id' ` set xs"
  by (induction xs) auto

lemma pos_updateFound:
  "\<forall>x \<in> set xs. 0 < id' x \<Longrightarrow>
   \<forall>x \<in> set (updateFound i (\<lambda>x. x\<lparr>marks := g x\<rparr>) xs). 0 < id' x"
  by (induction xs) auto

lemma wf_edited:
  assumes "selection_valid s" "ids_positive s"
  shows "selection_valid (updateAllVisuals (s\<lparr>students := updateFound i (\<lambda>x. x\<lparr>marks := g x\<rparr>) (students s)\<rparr>))
    \<and> ids_positive (updateAllVisuals (s\<lparr>students := updateFound i (\<lambda>x. x\<lparr>marks := g x\<rparr>) (students s)\<rparr>))"
proof (rule wf_updateAllVisuals)
  show "selection_valid (s\<lparr>students := updateFound i (\<lambda>x. x\<lparr>marks := g x\<rparr>) (students s)\<rparr>)"
    using assms(1) unfolding selection_valid_def by (simp add: set_updateFound_ids)
  show "ids_positive (s\<lparr>students := updateFound i (\<lambda>x. x\<lparr>marks := g x\<rparr>) (students s)\<rparr>)"
    using assms(2) pos_updateFound [of "students s" i g] unfolding ids_positive_def by simp
qed

lemma wf_handleMarkEdit:
  assumes "selection_valid s" "ids_positive s" "handleMarkEdit i subject raw s = Inr (shown, s')"
  shows "selection_valid s' \<and> ids_positive s'"
proof -
  let ?upd = "\<lambda>v. updateAllVisuals (s\<lparr>students :=
          updateFound i (\<lambda>x. x\<lparr>marks := mark_set (marks x) subject (Some v)\<rparr>) (students s)\<rparr>)"
  have "s' = s \<or> (\<exists>v. s' = ?upd v)"
    using assms(3) unfolding handleMarkEdit_cases
    by (auto split: option.splits if_splits)
  then show ?thesis
  proof
    assume "s' = s"
    with assms(1,2) show ?thesis by simp
  next
    assume "\<exists>v. s' = ?upd v"
    then obtain v where "s' = ?upd v" ..
    then show ?thesis using wf_edited [OF assms(1,2)] by simp
  qed
qed

lemma reachable_wf: "reachable s \<Longrightarrow> selection_valid s \<and> ids_positive s"
proof (induction rule: reachable.induct)
  case (init p)
  show ?case
    by (simp add: initialState_def selection_valid_def ids_positive_def studentsData_def)
next
  case (checkbox s i c)
  then show ?case by (simp add: wf_checkboxChange)
next
  case (mouseenter s i)
  then show ?case by (simp add: selection_valid_def ids_positive_def)
next
  case (mouseleave s)
  then show ?case by (simp add: selection_valid_def ids_positive_def)
next
  case (click s i)
  then show ?case
    by (auto simp: selection_valid_def ids_positive_def rowClick_def selectStudentForRadar_def)
next
  case (edit s i subject raw shown s')
  then show ?case using wf_handleMarkEdit by blast
next
  case (add s form)
  then show ?case by (simp add: submitAddStudent_def Let_def wf_addStudent)
next
  case (delete s i)
  then show ?case by (simp add: wf_deleteStudent)
next
  case (compare s)
  then show ?case
    by (simp add: selection_valid_def ids_positive_def openComparisonModal_def)
next
  case (close s)
  then show ?case
    by (simp add: selection_valid_def ids_positive_def closeComparisonModal_def)
next
  case (print s)
  then show ?case
    by (simp add: selection_valid_def ids_positive_def handlePrint_def split: option.splits)
qed


lemma checkbox_third_rejected:
  "length (selectedStudents s) = 2 \<Longrightarrow> checkboxChange i True s = s"
  by (simp add: checkboxChange_def)

text \<open>
  Claim C3. In every state the dashboard reaches (by checking or unchecking a box,
  adding, deleting, editing, or any other handler) at most two students are selected
  for comparison, and every selected id and the focused id belong to a student of the
  roster. Checking a box while two students are selected changes nothing, so the
  selection stays as it was and does not take the rejected id; deleting a student
  removes its id from the roster, from the selection and from the focus.
\<close>

theorem selection_invariant:
  assumes "reachable s"
  shows "length (selectedStudents s) \<le> 2
    \<and> set (selectedStudents s) \<subseteq> id' ` set (students s)
    \<and> (\<forall>f. selectedStudentForRadar s = Some f \<longrightarrow> f \<in> id' ` set (students s))
    \<and> (length (selectedStudents s) = 2 \<longrightarrow>
          checkboxChange i True s = s
          \<and> (i \<notin> set (selectedStudents s) \<longrightarrow>
                i \<notin> set (selectedStudents (checkboxChange i True s))))
    \<and> i \<notin> id' ` set (students (deleteStudent i s))
    \<and> i \<notin> set (selectedStudents (deleteStudent i s))
    \<and> selectedStudentForRadar (deleteStudent i s) \<noteq> Some i"
proof -
  from assms have wf: "selection_valid s" and pos: "ids_positive s"
    using reachable_wf by blast+
  have a: "length (selectedStudents s) \<le> 2"
    and b: "set (selectedStudents s) \<subseteq> id' ` set (students s)"
    and c: "\<forall>f. selectedStudentForRadar s = Some f \<longrightarrow> f \<in> id' ` set (students s)"
    using wf unfolding selection_valid_def by blast+
  have d: "length (selectedStudents s) = 2 \<longrightarrow>
          checkboxChange i True s = s
          \<and> (i \<notin> set (selectedStudents s) \<longrightarrow>
                i \<notin> set (selectedStudents (checkboxChange i True s)))"
    by (simp add: checkbox_third_rejected)
  have e: "i \<notin> id' ` set (students (deleteStudent i s))"
    unfolding deleteStudent_students by auto
  have f: "i \<notin> set (selectedStudents (deleteStudent i s))"
    unfolding deleteStudent_selected by simp
  have g: "selectedStudentForRadar (deleteStudent i s) \<noteq> Some i"
  proof
    assume h: "selectedStudentForRadar (deleteStudent i s) = Some i"
    then have "selectedStudentForRadar s = Some i"
      unfolding deleteStudent_focus by (simp split: option.splits if_splits)
    with c have "i \<in> id' ` set (students s)" by blast
    with pos have "i \<noteq> 0" unfolding ids_positive_def by auto
    moreover have "i \<notin> id' ` set (filter (\<lambda>x. id' x \<noteq> i) (students s))" by auto
    ultimately show False
      using h \<open>selectedStudentForRadar s = Some i\<close> unfolding deleteStudent_focus by simp
  qed
  from a b c d e f g show ?thesis by (intro conjI)
qed

lemma reachable_twoSelected: "reachable twoSelected"
  unfolding twoSelected_def
  by (intro reachable.click reachable.checkbox reachable.init)
     (simp_all add: checkboxChange_def initialState_def studentsData_def)

lemma twoSelected_fields:
  "selectedStudents twoSelected = [104, 101]"
  "selectedStudentForRadar twoSelected = Some 104"
  by (simp_all add: twoSelected_def rowClick_def selectStudentForRadar_def checkboxChange_def
      initialState_def)

theorem selection_invariant_witness:
  "selectedStudents twoSelected = [104, 101]
   \<and> selectedStudentForRadar twoSelected = Some 104
   \<and> set (selectedStudents twoSelected) \<subseteq> id' ` set (students twoSelected)
   \<and> checkboxChange 103 True twoSelected = twoSelected
   \<and> selectedStudents (checkboxChange 103 True twoSelected) = [104, 101]
   \<and> selectedStudents (deleteStudent 104 twoSelected) = [101]
   \<and> selectedStudentForRadar (deleteStudent 104 twoSelected) \<noteq> Some 104"
proof -
  note th = selection_invariant [OF reachable_twoSelected]
  have len: "length (selectedStudents twoSelected) = 2"
    by (simp add: twoSelected_fields)
  have a: "set (selectedStudents twoSelected) \<subseteq> id' ` set (students twoSelected)"
    using th [of 103] by (elim conjE)
  have b0: "length (selectedStudents twoSelected) = 2 \<longrightarrow>
          checkboxChange 103 True twoSelected = twoSelected
          \<and> (103 \<notin> set (selectedStudents twoSelected) \<longrightarrow>
                103 \<notin> set (selectedStudents (checkboxChange 103 True twoSelected)))"
    using th [of 103] by (elim conjE)
  have b: "checkboxChange 103 True twoSelected = twoSelected"
    using b0 len by blast
  have c: "selectedStudents (checkboxChange 103 True twoSelected) = [104, 101]"
    unfolding b by (rule twoSelected_fields)
  have d: "selectedStudents (deleteStudent 104 twoSelected) = [101]"
    by (simp add: deleteStudent_selected twoSelected_fields)
  have e: "selectedStudentForRadar (deleteStudent 104 twoSelected) \<noteq> Some 104"
    using th [of 104] by (elim conjE)
  from twoSelected_fields a b c d e show ?thesis by (intro conjI)
qed

lemma showInsight_found:
  "find (\<lambda>x. id' x = i) (students s) = Some st \<Longrightarrow>
   showInsight i s = s\<lparr>insightPanel := InsightCard (name st) (getInsight st)\<rparr>"
  by (simp add: showInsight_def)

lemma find_id_exists:
  "i \<in> id' ` set xs \<Longrightarrow> \<exists>st. find (\<lambda>x. id' x = i) xs = Some st"
  using find_id_None [of i xs] by (cases "find (\<lambda>x. id' x = i) xs") auto

text \<open>
  Claim C4. In every state the dashboard reaches, \<open>restoreInsightState\<close> changes only
  the insight panel and fills it by priority: with two students selected it shows the
  placeholder for a multiple selection and no insight; with exactly one selected it
  shows the insight of that student, whether or not a row has the focus; with none
  selected it shows the insight of the focused student if there is one, and the
  default placeholder otherwise.
\<close>

theorem restoreInsightState_priority:
  assumes "reachable s"
  shows "restoreInsightState s = s\<lparr>insightPanel := insightPanel (restoreInsightState s)\<rparr>
    \<and> (length (selectedStudents s) = 2 \<longrightarrow>
          insightPanel (restoreInsightState s) = multiplePlaceholder)
    \<and> (\<forall>a. selectedStudents s = [a] \<longrightarrow>
          (\<exists>st. find (\<lambda>x. id' x = a) (students s) = Some st
             \<and> insightPanel (restoreInsightState s) = InsightCard (name st) (getInsight st)))
    \<and> (\<forall>f. selectedStudents s = [] \<and> selectedStudentForRadar s = Some f \<longrightarrow>
          (\<exists>st. find (\<lambda>x. id' x = f) (students s) = Some st
             \<and> insightPanel (restoreInsightState s) = InsightCard (name st) (getInsight st)))
    \<and> (selectedStudents s = [] \<and> selectedStudentForRadar s = None \<longrightarrow>
          insightPanel (restoreInsightState s) = defaultPlaceholder)
    \<and> (length (selectedStudents s) = 0 \<or> length (selectedStudents s) = 1
          \<or> length (selectedStudents s) = 2)"
proof -
  from assms have wf: "selection_valid s" and pos: "ids_positive s"
    using reachable_wf by blast+
  have p0: "restoreInsightState s = s\<lparr>insightPanel := insightPanel (restoreInsightState s)\<rparr>"
    by (simp add: restoreInsightState_def showInsight_def split: option.splits)
  have p1: "length (selectedStudents s) = 2 \<longrightarrow>
          insightPanel (restoreInsightState s) = multiplePlaceholder"
    by (simp add: restoreInsightState_def)
  have p2: "\<forall>a. selectedStudents s = [a] \<longrightarrow>
          (\<exists>st. find (\<lambda>x. id' x = a) (students s) = Some st
             \<and> insightPanel (restoreInsightState s) = InsightCard (name st) (getInsight st))"
  proof (intro allI impI)
    fix a assume sel: "selectedStudents s = [a]"
    then have "a \<in> id' ` set (students s)"
      using wf unfolding selection_valid_def by simp
    then obtain st where st: "find (\<lambda>x. id' x = a) (students s) = Some st"
      using find_id_exists by blast
    then have "insightPanel (restoreInsightState s) = InsightCard (name st) (getInsight st)"
      using sel by (simp add: restoreInsightState_def showInsight_found)
    with st show "\<exists>st. find (\<lambda>x. id' x = a) (students s) = Some st
             \<and> insightPanel (restoreInsightState s) = InsightCard (name st) (getInsight st)"
      by blast
  qed
  have p3: "\<forall>f. selectedStudents s = [] \<and> selectedStudentForRadar s = Some f \<longrightarrow>
          (\<exists>st. find (\<lambda>x. id' x = f) (students s) = Some st
             \<and> insightPanel (restoreInsightState s) = InsightCard (name st) (getInsight st))"
  proof (intro allI impI)
    fix f assume h: "selectedStudents s = [] \<and> selectedStudentForRadar s = Some f"
    then have mem: "f \<in> id' ` set (students s)"
      using wf unfolding selection_valid_def by blast
    then have "f \<noteq> 0" using pos unfolding ids_positive_def by auto
    obtain st where st: "find (\<lambda>x. id' x = f) (students s) = Some st"
      using mem find_id_exists by blast
    then have "insightPanel (restoreInsightState s) = InsightCard (name st) (getInsight st)"
      using h \<open>f \<noteq> 0\<close> by (simp add: restoreInsightState_def showInsight_found)
    with st show "\<exists>st. find (\<lambda>x. id' x = f) (students s) = Some st
             \<and> insightPanel (restoreInsightState s) = InsightCard (name st) (getInsight st)"
      by blast
  qed
  have p4: "selectedStudents s = [] \<and> selectedStudentForRadar s = None \<longrightarrow>
          insightPanel (restoreInsightState s) = defaultPlaceholder"
    by (simp add: restoreInsightState_def)
  have p5: "length (selectedStudents s) = 0 \<or> length (selectedStudents s) = 1
          \<or> length (selectedStudents s) = 2"
    using wf unfolding selection_valid_def by linarith
  from p0 p1 p2 p3 p4 p5 show ?thesis by (intro conjI)
qed

lemma reachable_oneSelected: "reachable oneSelected"
  unfolding oneSelected_def
  by (intro reachable.click reachable.checkbox reachable.init)
     (simp_all add: checkboxChange_def initialState_def studentsData_def)

lemma oneSelected_fields:
  "selectedStudents oneSelected = [104]"
  "selectedStudentForRadar oneSelected = Some 103"
  "students oneSelected = studentsData"
  by (simp_all add: oneSelected_def rowClick_def selectStudentForRadar_def checkboxChange_def
      initialState_def)

lemma oneSelected_panel: "\<exists>i. insightPanel oneSelected = InsightCard ''Rohan Kumar'' i"
  by (simp add: oneSelected_def rowClick_def selectStudentForRadar_def checkboxChange_def
      initialState_def showInsight_def restoreInsightState_def studentsData_def)

theorem restoreInsightState_priority_witness:
  "selectedStudents oneSelected = [104]
   \<and> selectedStudentForRadar oneSelected = Some 103
   \<and> (\<exists>i. insightPanel oneSelected = InsightCard ''Rohan Kumar'' i)
   \<and> insightPanel (restoreInsightState oneSelected)
       = InsightCard ''Ananya Singh''
           \<lparr>status = ''Excellent'', statusClass = ''insight-excellent'',
            strengths = [''Math'', ''Science'', ''English'', ''History'', ''Computer''],
            weaknesses = [], insightAverage = Some (926 / 10)\<rparr>"
proof -
  note th = restoreInsightState_priority [OF reachable_oneSelected]
  have one: "\<forall>a. selectedStudents oneSelected = [a] \<longrightarrow>
          (\<exists>st. find (\<lambda>x. id' x = a) (students oneSelected) = Some st
             \<and> insightPanel (restoreInsightState oneSelected)
                 = InsightCard (name st) (getInsight st))"
    using th by (elim conjE)
  then obtain st where st: "find (\<lambda>x. id' x = 104) (students oneSelected) = Some st"
    and p: "insightPanel (restoreInsightState oneSelected) = InsightCard (name st) (getInsight st)"
    using oneSelected_fields(1) by blast
  have "find (\<lambda>x. id' x = 104) (students oneSelected) = Some (hd studentsData)"
    by (simp add: oneSelected_fields studentsData_def)
  with st have "st = hd studentsData" by simp
  moreover have "name (hd studentsData) = ''Ananya Singh''"
    by (simp add: studentsData_def)
  moreover have "getInsight (hd studentsData) =
           \<lparr>status = ''Excellent'', statusClass = ''insight-excellent'',
            strengths = [''Math'', ''Science'', ''English'', ''History'', ''Computer''],
            weaknesses = [], insightAverage = Some (926 / 10)\<rparr>"
    by (simp add: studentsData_def getInsight_def calculateAverage_exact SUBJECTS_def)
  ultimately have q: "insightPanel (restoreInsightState oneSelected)
       = InsightCard ''Ananya Singh''
           \<lparr>status = ''Excellent'', statusClass = ''insight-excellent'',
            strengths = [''Math'', ''Science'', ''English'', ''History'', ''Computer''],
            weaknesses = [], insightAverage = Some (926 / 10)\<rparr>"
    using p by simp
  from oneSelected_fields(1,2) oneSelected_panel q show ?thesis by (intro conjI)
qed

section \<open>Adding a student\<close>

lemma fold_max_Max: "fold max xs (x::int) = Max (set (x # xs))"
  by (simp only: Max.set_eq_fold)

lemma addStudent_students:
  "students (addStudent d s) =
     students s @ [\<lparr>id' = (case map id' (students s) of [] \<Rightarrow> 1 | x # xs \<Rightarrow> fold max xs x + 1),
                    rollNo = rollNo' d, name = name' d, marks = marks' d\<rparr>]"
  by (simp add: addStudent_def Let_def)

lemma new_id_Max:
  "(case map id' roster of [] \<Rightarrow> 1 | x # xs \<Rightarrow> fold max xs x + 1) =
     (if roster = [] then 1 else Max (id' ` set roster) + 1)"
proof (cases roster)
  case Nil
  then show ?thesis by simp
next
  case (Cons y ys)
  have "fold max (map id' ys) (id' y) = Max (set (id' y # map id' ys))"
    by (rule fold_max_Max)
  then show ?thesis using Cons by simp
qed

lemma addStudent_selection:
  "selectedStudents (addStudent d s) = selectedStudents s"
  by (simp add: addStudent_def Let_def)

text \<open>
  Claim C5. The submit handler of the add form aborts, with an alert and the state
  unchanged, exactly when the trimmed roll number of the form equals the roll number
  of a student of the roster, compared as strings character by character. Otherwise
  it appends one student whose id is the largest id of the roster plus 1, or 1 on an
  empty roster, so the roster grows by exactly one entry.
\<close>

theorem submitAddStudent_duplicate_roll:
  "(fst (submitAddStudent form s) \<noteq> None
      \<longleftrightarrow> (\<exists>x \<in> set (students s). rollNo x = String_trim (rollNoInput form)))
   \<and> ((\<exists>x \<in> set (students s). rollNo x = String_trim (rollNoInput form)) \<longrightarrow>
         submitAddStudent form s = (Some ''Roll Number already exists!'', s))
   \<and> (\<not> (\<exists>x \<in> set (students s). rollNo x = String_trim (rollNoInput form)) \<longrightarrow>
         students (snd (submitAddStudent form s)) =
           students s @
             [\<lparr>id' = (if students s = [] then 1 else Max (id' ` set (students s)) + 1),
               rollNo = String_trim (rollNoInput form),
               name = String_trim (studentName form),
               marks = \<lparr>math = parseInt (markMath form),
                        science = parseInt (markScience form),
                        english = parseInt (markEnglish form),
                        history = parseInt (markHistory form),
                        computer = parseInt (markComputer form)\<rparr>\<rparr>]
         \<and> length (students (snd (submitAddStudent form s))) = length (students s) + 1)"
proof -
  let ?dup = "\<exists>x \<in> set (students s). rollNo x = String_trim (rollNoInput form)"
  have ex: "list_ex (\<lambda>x. rollNo x = String_trim (rollNoInput form)) (students s) = ?dup"
    by (simp add: list_ex_iff)
  have a: "fst (submitAddStudent form s) \<noteq> None \<longleftrightarrow> ?dup"
    unfolding submitAddStudent_def Let_def ex by simp
  have b: "?dup \<longrightarrow> submitAddStudent form s = (Some ''Roll Number already exists!'', s)"
    unfolding submitAddStudent_def Let_def ex by simp
  have c: "\<not> ?dup \<longrightarrow>
         students (snd (submitAddStudent form s)) =
           students s @
             [\<lparr>id' = (if students s = [] then 1 else Max (id' ` set (students s)) + 1),
               rollNo = String_trim (rollNoInput form),
               name = String_trim (studentName form),
               marks = \<lparr>math = parseInt (markMath form),
                        science = parseInt (markScience form),
                        english = parseInt (markEnglish form),
                        history = parseInt (markHistory form),
                        computer = parseInt (markComputer form)\<rparr>\<rparr>]
         \<and> length (students (snd (submitAddStudent form s))) = length (students s) + 1"
    unfolding submitAddStudent_def Let_def ex
    by (simp add: addStudent_students new_id_Max)
  from a b c show ?thesis by (intro conjI)
qed

theorem submitAddStudent_duplicate_roll_witness:
  "submitAddStudent (outOfRangeForm\<lparr>rollNoInput := ''104 ''\<rparr>) (initialState defaultPlaceholder)
     = (Some ''Roll Number already exists!'', initialState defaultPlaceholder)
   \<and> map id' (students (snd (submitAddStudent outOfRangeForm (initialState defaultPlaceholder))))
       = [104, 101, 103, 102, 105, 106]
   \<and> map id' (students (snd (submitAddStudent outOfRangeForm
         ((initialState defaultPlaceholder)\<lparr>students := []\<rparr>)))) = [1]"
proof -
  let ?f = "outOfRangeForm\<lparr>rollNoInput := ''104 ''\<rparr>"
  let ?s = "initialState defaultPlaceholder"
  have dup: "\<exists>x \<in> set (students ?s). rollNo x = String_trim (rollNoInput ?f)"
    by (simp add: initialState_def studentsData_def String_trim_def isWhiteSpace_def)
  have b0: "(\<exists>x \<in> set (students ?s). rollNo x = String_trim (rollNoInput ?f)) \<longrightarrow>
         submitAddStudent ?f ?s = (Some ''Roll Number already exists!'', ?s)"
    using submitAddStudent_duplicate_roll [of ?f ?s] by (elim conjE)
  have b: "submitAddStudent ?f ?s = (Some ''Roll Number already exists!'', ?s)"
    using b0 dup by (rule mp)
  have c: "map id' (students (snd (submitAddStudent outOfRangeForm ?s))) = [104, 101, 103, 102, 105, 106]"
    by code_simp
  have d: "map id' (students (snd (submitAddStudent outOfRangeForm (?s\<lparr>students := []\<rparr>)))) = [1]"
    by code_simp
  from b c d show ?thesis by (intro conjI)
qed

section \<open>Editing a mark\<close>

lemma find_decompose:
  "find P xs = Some st \<Longrightarrow> \<exists>pre post. xs = pre @ st # post \<and> (\<forall>x \<in> set pre. \<not> P x) \<and> P st"
proof (induction xs)
  case Nil
  then show ?case by simp
next
  case (Cons y ys)
  show ?case
  proof (cases "P y")
    case True
    with Cons.prems have "y = st" by simp
    with True have "y # ys = [] @ st # ys \<and> (\<forall>x \<in> set []. \<not> P x) \<and> P st" by simp
    then show ?thesis by blast
  next
    case False
    with Cons obtain pre post where "ys = pre @ st # post" "\<forall>x \<in> set pre. \<not> P x" "P st"
      by auto
    with False have "y # ys = (y # pre) @ st # post \<and> (\<forall>x \<in> set (y # pre). \<not> P x) \<and> P st"
      by simp
    then show ?thesis by blast
  qed
qed

lemma updateFound_decomposed:
  "\<forall>x \<in> set pre. id' x \<noteq> i \<Longrightarrow> id' st = i \<Longrightarrow>
   updateFound i f (pre @ st # post) = pre @ f st # post"
  by (induction pre) auto

lemma mark_set_at: "mark_at (mark_set m subject v) subject' = (if subject' = subject then v else mark_at m subject')"
  by (cases subject; cases subject') simp_all

lemma students_edited:
  "students (updateAllVisuals (s\<lparr>students := xs\<rparr>)) = xs"
  by simp

lemma decimal_digit_code:
  "isRadixDigit 10 c \<Longrightarrow> 48 \<le> (of_char c :: nat) \<and> (of_char c :: nat) \<le> 57"
  unfolding isRadixDigit_def digitValue_def Let_def
  by (auto split: if_splits)

lemma decimal_digit_not_space: "isRadixDigit 10 c \<Longrightarrow> \<not> isWhiteSpace c"
  using decimal_digit_code [of c] by (auto simp: isWhiteSpace_def)

lemma sign_not_space: "\<not> isWhiteSpace (CHR ''+'')" "\<not> isWhiteSpace (CHR ''-'')"
  by (simp_all add: isWhiteSpace_def)

lemma sign_not_digit: "\<not> isRadixDigit 10 (CHR ''+'')" "\<not> isRadixDigit 10 (CHR ''-'')"
  "\<not> isRadixDigit 10 (CHR ''x'')" "\<not> isRadixDigit 10 (CHR ''X'')"
  by (simp_all add: isRadixDigit_def digitValue_def)

lemma trim_id:
  assumes "t \<noteq> []" "\<not> isWhiteSpace (hd t)" "\<not> isWhiteSpace (last t)"
  shows "String_trim t = t"
proof -
  have a: "dropWhile isWhiteSpace t = t"
    using assms(2) by (simp add: dropWhile_eq_self_iff)
  have "hd (rev t) = last t"
    using assms(1) by (simp add: hd_rev)
  then have b: "dropWhile isWhiteSpace (rev t) = rev t"
    using assms(3) by (simp add: dropWhile_eq_self_iff)
  show ?thesis unfolding String_trim_def a b by simp
qed

lemma not_hex_prefix:
  assumes "list_all (isRadixDigit 10) body"
  shows "take 2 body \<noteq> ''0x''" "take 2 body \<noteq> ''0X''"
proof -
  have "\<And>a b rest. body = a # b # rest \<Longrightarrow> isRadixDigit 10 b"
    using assms by simp
  then show "take 2 body \<noteq> ''0x''" "take 2 body \<noteq> ''0X''"
    using sign_not_digit(3,4) by (cases body; cases "tl body"; auto)+
qed

lemma parseInt_digits:
  assumes "body \<noteq> []" "list_all (isRadixDigit 10) body"
  shows "parseInt body = Some (int (digitsValue 10 body))"
    and "parseInt (CHR ''+'' # body) = Some (int (digitsValue 10 body))"
    and "parseInt (CHR ''-'' # body) = Some (- int (digitsValue 10 body))"
proof -
  have hd_digit: "isRadixDigit 10 (hd body)"
    using assms by (cases body) simp_all
  then have nsp: "\<not> isWhiteSpace (hd body)" by (rule decimal_digit_not_space)
  have dw: "dropWhile isWhiteSpace body = body"
    using assms(1) nsp by (cases body) simp_all
  have nosign: "hd body \<noteq> CHR ''+''" "hd body \<noteq> CHR ''-''"
    using hd_digit sign_not_digit by auto
  have tw: "takeWhile (isRadixDigit 10) body = body"
    using assms(2) by (simp add: list_all_iff takeWhile_eq_all_conv)
  note nh = not_hex_prefix [OF assms(2)]
  show "parseInt body = Some (int (digitsValue 10 body))"
    unfolding parseInt_def Let_def dw using assms(1) nosign nh by (simp add: tw)
  show "parseInt (CHR ''+'' # body) = Some (int (digitsValue 10 body))"
    unfolding parseInt_def Let_def using assms(1) nh sign_not_space by (simp add: tw)
  show "parseInt (CHR ''-'' # body) = Some (- int (digitsValue 10 body))"
    unfolding parseInt_def Let_def using assms(1) nh sign_not_space by (simp add: tw)
qed

lemma parseInt_valid_integer:
  assumes "valid_integer t"
  shows "parseInt (String_trim t) = Some (integer_value t)"
proof -
  define body where "body = (if t \<noteq> [] \<and> (hd t = CHR ''+'' \<or> hd t = CHR ''-'') then tl t else t)"
  from assms have body: "body \<noteq> []" "list_all (isRadixDigit 10) body"
    unfolding valid_integer_def Let_def body_def by simp_all
  then have lastd: "isRadixDigit 10 (last body)"
    by (simp add: list_all_iff)
  have hdd: "isRadixDigit 10 (hd body)"
    using body by (cases body) simp_all
  have tne: "t \<noteq> []" using body(1) unfolding body_def by (auto split: if_splits)
  have last_t: "last t = last body"
    using body(1) tne unfolding body_def by (cases t) (auto split: if_splits)
  have hd_ns: "\<not> isWhiteSpace (hd t)"
  proof (cases "hd t = CHR ''+'' \<or> hd t = CHR ''-''")
    case True
    then show ?thesis using sign_not_space by auto
  next
    case False
    then have "body = t" unfolding body_def by simp
    with hdd show ?thesis using decimal_digit_not_space by simp
  qed
  have "\<not> isWhiteSpace (last t)"
    unfolding last_t using lastd by (rule decimal_digit_not_space)
  with tne hd_ns have trim: "String_trim t = t" by (rule trim_id)
  show ?thesis
  proof (cases "hd t = CHR ''+'' \<or> hd t = CHR ''-''")
    case True
    then have t: "t = hd t # body" using tne unfolding body_def by simp
    from True show ?thesis
    proof
      assume p: "hd t = CHR ''+''"
      then have "t = CHR ''+'' # body" using t by simp
      then show ?thesis
        unfolding trim using parseInt_digits(2) [OF body] tne p
        by (simp add: integer_value_def)
    next
      assume m: "hd t = CHR ''-''"
      then have "t = CHR ''-'' # body" using t by simp
      then show ?thesis
        unfolding trim using parseInt_digits(3) [OF body] tne m
        by (simp add: integer_value_def)
    qed
  next
    case False
    then have "body = t" unfolding body_def by simp
    then show ?thesis
      unfolding trim using parseInt_digits(1) [OF body] False
      by (simp add: integer_value_def)
  qed
qed

lemma handleMarkEdit_rejected:
  assumes "find (\<lambda>x. id' x = i) (students s) = Some st"
    and "parseInt (String_trim raw) = None
         \<or> (\<exists>v. parseInt (String_trim raw) = Some v \<and> (v < 0 \<or> 100 < v))"
  shows "handleMarkEdit i subject raw s = Inr (mark_at (marks st) subject, s)"
  using assms unfolding handleMarkEdit_cases by auto

lemma handleMarkEdit_accepted:
  assumes "find (\<lambda>x. id' x = i) (students s) = Some st"
    and "parseInt (String_trim raw) = Some v" "0 \<le> v" "v \<le> 100"
  shows "\<exists>pre post s'. students s = pre @ st # post \<and> (\<forall>x \<in> set pre. id' x \<noteq> i)
      \<and> handleMarkEdit i subject raw s = Inr (Some v, s')
      \<and> students s' = pre @ st\<lparr>marks := mark_set (marks st) subject (Some v)\<rparr> # post
      \<and> selectedStudents s' = selectedStudents s"
proof -
  from assms(1) obtain pre post where dec: "students s = pre @ st # post"
    and pre: "\<forall>x \<in> set pre. id' x \<noteq> i" and st: "id' st = i"
    using find_decompose [of "\<lambda>x. id' x = i" "students s" st] by blast
  let ?f = "\<lambda>x. x\<lparr>marks := mark_set (marks x) subject (Some v)\<rparr>"
  let ?s' = "updateAllVisuals (s\<lparr>students := updateFound i ?f (students s)\<rparr>)"
  have h: "handleMarkEdit i subject raw s = Inr (Some v, ?s')"
    using assms unfolding handleMarkEdit_cases by simp
  have "updateFound i ?f (students s) = pre @ ?f st # post"
    unfolding dec using pre st by (rule updateFound_decomposed)
  then have r: "students ?s' = pre @ st\<lparr>marks := mark_set (marks st) subject (Some v)\<rparr> # post"
    by simp
  have sel: "selectedStudents ?s' = selectedStudents s" by simp
  from dec pre h r sel show ?thesis by blast
qed

lemma handleMarkEdit_valid_integer:
  assumes "find (\<lambda>x. id' x = i) (students s) = Some st"
    and "valid_integer raw" "0 \<le> integer_value raw" "integer_value raw \<le> 100"
  shows "\<exists>s'. handleMarkEdit i subject raw s = Inr (Some (integer_value raw), s')"
  using handleMarkEdit_accepted [OF assms(1) parseInt_valid_integer [OF assms(2)] assms(3,4)]
  by blast

lemma parse_examples:
  "parseInt (String_trim ''abc'') = None"
  "parseInt (String_trim ''101'') = Some 101"
  "parseInt (String_trim ''12abc'') = Some 12"
  "parseInt (String_trim ''0x1A'') = Some 26"
  "parseInt (String_trim ''1e2'') = Some 1"
  "parseInt (String_trim ''+7.9'') = Some 7"
  by code_simp+

text \<open>
  Claim C6. The mark editor should reject every text that is not a valid integer
  from 0 to 100, leaving the roster as it is, and commit every text that is one. It
  commits the valid ones (\<open>handleMarkEdit_valid_integer\<close>) and rejects a text without
  leading digits or with a number out of range (\<open>handleMarkEdit_rejected\<close>). But it
  validates the result of \<open>parseInt\<close>, which reads a leading run of digits and ignores
  the rest: the text 12abc, which is not a valid integer, is committed as the mark 12
  and changes the roster, as are 0x1A (26), 1e2 (1) and +7.9 (7).
\<close>

theorem handleMarkEdit_commits_prefix:
  "\<not> valid_integer ''12abc''
   \<and> (\<exists>s'. handleMarkEdit 104 Math ''12abc'' (initialState defaultPlaceholder) = Inr (Some 12, s')
         \<and> map (\<lambda>x. math (marks x)) (students s')
             = [Some 12, Some 92, Some 65, Some 55, Some 45]
         \<and> students s' \<noteq> students (initialState defaultPlaceholder))
   \<and> \<not> valid_integer ''0x1A''
   \<and> (\<exists>s'. handleMarkEdit 104 Math ''0x1A'' (initialState defaultPlaceholder) = Inr (Some 26, s'))
   \<and> \<not> valid_integer ''1e2''
   \<and> (\<exists>s'. handleMarkEdit 104 Math ''1e2'' (initialState defaultPlaceholder) = Inr (Some 1, s'))
   \<and> \<not> valid_integer ''+7.9''
   \<and> (\<exists>s'. handleMarkEdit 104 Math ''+7.9'' (initialState defaultPlaceholder) = Inr (Some 7, s'))"
proof -
  let ?s = "initialState defaultPlaceholder"
  have f: "find (\<lambda>x. id' x = 104) (students ?s) = Some (hd studentsData)"
    by (simp add: initialState_def studentsData_def)
  have a: "\<not> valid_integer ''12abc''" "\<not> valid_integer ''0x1A''" "\<not> valid_integer ''1e2''"
    "\<not> valid_integer ''+7.9''"
    by code_simp+
  have b: "handleMarkEdit 104 Math ''12abc'' ?s
      = Inr (Some 12, ?s\<lparr>students :=
          (hd studentsData)\<lparr>marks := (marks (hd studentsData))\<lparr>math := Some 12\<rparr>\<rparr>
            # tl studentsData\<rparr>)"
    unfolding handleMarkEdit_cases parse_examples(3)
    by (simp add: initialState_def studentsData_def updateAllVisuals_def)
  have c: "map (\<lambda>x. math (marks x))
        ((hd studentsData)\<lparr>marks := (marks (hd studentsData))\<lparr>math := Some 12\<rparr>\<rparr> # tl studentsData)
      = [Some 12, Some 92, Some 65, Some 55, Some 45]"
    by (simp add: studentsData_def)
  have d: "(hd studentsData)\<lparr>marks := (marks (hd studentsData))\<lparr>math := Some 12\<rparr>\<rparr> # tl studentsData
      \<noteq> students ?s"
    by (simp add: initialState_def studentsData_def)
  from b c d have e: "\<exists>s'. handleMarkEdit 104 Math ''12abc'' ?s = Inr (Some 12, s')
         \<and> map (\<lambda>x. math (marks x)) (students s')
             = [Some 12, Some 92, Some 65, Some 55, Some 45]
         \<and> students s' \<noteq> students ?s"
    by simp
  have g: "\<exists>s'. handleMarkEdit 104 Math ''0x1A'' ?s = Inr (Some 26, s')"
    using handleMarkEdit_accepted [OF f parse_examples(4), of Math] by auto
  have h: "\<exists>s'. handleMarkEdit 104 Math ''1e2'' ?s = Inr (Some 1, s')"
    using handleMarkEdit_accepted [OF f parse_examples(5), of Math] by auto
  have k: "\<exists>s'. handleMarkEdit 104 Math ''+7.9'' ?s = Inr (Some 7, s')"
    using handleMarkEdit_accepted [OF f parse_examples(6), of Math] by auto
  from a(1) e a(2) g a(3) h a(4) k show ?thesis by (intro conjI)
qed

section \<open>Ids that are not in the roster\<close>

lemma handleMarkEdit_absent:
  "i \<notin> id' ` set (students s) \<Longrightarrow> handleMarkEdit i subject raw s = Inl TypeError"
proof -
  assume "i \<notin> id' ` set (students s)"
  then have "find (\<lambda>x. id' x = i) (students s) = None"
    by (rule find_id_None [THEN iffD2])
  then show ?thesis unfolding handleMarkEdit_cases by simp
qed

lemma showInsight_absent: "i \<notin> id' ` set (students s) \<Longrightarrow> showInsight i s = s"
proof -
  assume "i \<notin> id' ` set (students s)"
  then have "find (\<lambda>x. id' x = i) (students s) = None"
    by (rule find_id_None [THEN iffD2])
  then show ?thesis by (simp add: showInsight_def)
qed

lemma filter_absent_id: "i \<notin> id' ` set xs \<Longrightarrow> filter (\<lambda>x. id' x \<noteq> i) xs = xs"
  by (induction xs) auto

lemma deleteStudent_absent:
  assumes "i \<notin> id' ` set (students s)" "selection_valid s"
  shows "students (deleteStudent i s) = students s"
    and "selectedStudents (deleteStudent i s) = selectedStudents s"
proof -
  show "students (deleteStudent i s) = students s"
    using assms(1) by (simp add: deleteStudent_students filter_absent_id)
  have "i \<notin> set (selectedStudents s)"
    using assms unfolding selection_valid_def by blast
  then show "selectedStudents (deleteStudent i s) = selectedStudents s"
    by (simp add: deleteStudent_selected filter_ne_absent)
qed

text \<open>
  Claim C9. An operation that names a student id which is not in the roster should do
  nothing and raise nothing. \<open>showInsight\<close> and \<open>deleteStudent\<close> behave so, but the
  mark editor does not guard the result of \<^verbatim>\<open>find\<close> as they do: for the id 999, which
  the initial roster does not hold, it ends in a TypeError, whether the text is a
  valid mark or not.
\<close>

theorem handleMarkEdit_absent_id_throws:
  "999 \<notin> id' ` set (students (initialState defaultPlaceholder))
   \<and> handleMarkEdit 999 Math ''50'' (initialState defaultPlaceholder) = Inl TypeError
   \<and> handleMarkEdit 999 Math ''abc'' (initialState defaultPlaceholder) = Inl TypeError
   \<and> showInsight 999 (initialState defaultPlaceholder) = initialState defaultPlaceholder
   \<and> deleteStudent 999 (initialState defaultPlaceholder) = initialState defaultPlaceholder"
proof -
  have a: "999 \<notin> id' ` set (students (initialState defaultPlaceholder))"
    by (simp add: initialState_def studentsData_def)
  have b: "handleMarkEdit 999 Math ''50'' (initialState defaultPlaceholder) = Inl TypeError"
    using a by (rule handleMarkEdit_absent)
  have c: "handleMarkEdit 999 Math ''abc'' (initialState defaultPlaceholder) = Inl TypeError"
    using a by (rule handleMarkEdit_absent)
  have d: "showInsight 999 (initialState defaultPlaceholder) = initialState defaultPlaceholder"
    using a by (rule showInsight_absent)
  have e: "deleteStudent 999 (initialState defaultPlaceholder) = initialState defaultPlaceholder"
    by (simp add: deleteStudent_def Let_def initialState_def studentsData_def updateAllVisuals_def)
  from a b c d e show ?thesis by (intro conjI)
qed

section \<open>Marks that enter through the add form\<close>

text \<open>
  Claim C10. \<open>addStudent\<close> does not inspect the marks it is given: whatever they are,
  NaN included, the student is appended with exactly these marks. The submit handler
  hands over the results of its five \<^verbatim>\<open>parseInt\<close> calls as they are: for a new roll
  number the appended student has, field by field, what \<^verbatim>\<open>parseInt\<close> made of the
  input, a number outside 0 to 100 or NaN as well. The range and NaN are checked by
  the mark editor only, which rejects both and leaves the roster as it is.
\<close>

theorem addStudent_no_validation:
  "students (addStudent d s) =
     students s @ [\<lparr>id' = (case map id' (students s) of [] \<Rightarrow> 1 | x # xs \<Rightarrow> fold max xs x + 1),
                    rollNo = rollNo' d, name = name' d, marks = marks' d\<rparr>]
   \<and> marks (last (students (addStudent d s))) = marks' d
   \<and> (\<not> (\<exists>x \<in> set (students s). rollNo x = String_trim (rollNoInput form)) \<longrightarrow>
         fst (submitAddStudent form s) = None
         \<and> length (students (snd (submitAddStudent form s))) = length (students s) + 1
         \<and> marks (last (students (snd (submitAddStudent form s))))
           = \<lparr>math = parseInt (markMath form), science = parseInt (markScience form),
              english = parseInt (markEnglish form), history = parseInt (markHistory form),
              computer = parseInt (markComputer form)\<rparr>)
   \<and> (\<forall>i subject raw st.
         find (\<lambda>x. id' x = i) (students s) = Some st
         \<and> (parseInt (String_trim raw) = None
            \<or> (\<exists>v. parseInt (String_trim raw) = Some v \<and> (v < 0 \<or> 100 < v))) \<longrightarrow>
         handleMarkEdit i subject raw s = Inr (mark_at (marks st) subject, s))"
proof -
  have a: "students (addStudent d s) =
     students s @ [\<lparr>id' = (case map id' (students s) of [] \<Rightarrow> 1 | x # xs \<Rightarrow> fold max xs x + 1),
                    rollNo = rollNo' d, name = name' d, marks = marks' d\<rparr>]"
    by (rule addStudent_students)
  have b: "marks (last (students (addStudent d s))) = marks' d"
    unfolding a by simp
  have c: "\<not> (\<exists>x \<in> set (students s). rollNo x = String_trim (rollNoInput form)) \<longrightarrow>
         fst (submitAddStudent form s) = None
         \<and> length (students (snd (submitAddStudent form s))) = length (students s) + 1
         \<and> marks (last (students (snd (submitAddStudent form s))))
           = \<lparr>math = parseInt (markMath form), science = parseInt (markScience form),
              english = parseInt (markEnglish form), history = parseInt (markHistory form),
              computer = parseInt (markComputer form)\<rparr>"
    by (simp add: submitAddStudent_def Let_def list_ex_iff addStudent_students)
  have e: "\<forall>i subject raw st.
         find (\<lambda>x. id' x = i) (students s) = Some st
         \<and> (parseInt (String_trim raw) = None
            \<or> (\<exists>v. parseInt (String_trim raw) = Some v \<and> (v < 0 \<or> 100 < v))) \<longrightarrow>
         handleMarkEdit i subject raw s = Inr (mark_at (marks st) subject, s)"
    using handleMarkEdit_rejected by blast
  from a b c e show ?thesis by (intro conjI)
qed

lemma parse_150_abc:
  "parseInt (String_trim ''150'') = Some 150"
  "parseInt (String_trim ''abc'') = None"
  "parseInt ''150'' = Some 150"
  "parseInt ''-5'' = Some (- 5)"
  "parseInt ''abc'' = None"
  "parseInt [] = None"
  "parseInt ''70'' = Some 70"
  by code_simp+

lemma find_104:
  "find (\<lambda>x. id' x = 104) (students (initialState defaultPlaceholder)) = Some (hd studentsData)"
  by (simp add: initialState_def studentsData_def)

theorem addStudent_no_validation_witness:
  "fst (submitAddStudent outOfRangeForm (initialState defaultPlaceholder)) = None
   \<and> length (students (snd (submitAddStudent outOfRangeForm (initialState defaultPlaceholder)))) = 6
   \<and> marks (last (students (snd (submitAddStudent outOfRangeForm (initialState defaultPlaceholder)))))
     = \<lparr>math = Some 150, science = Some (- 5), english = None, history = None, computer = Some 70\<rparr>
   \<and> handleMarkEdit 104 Math ''150'' (initialState defaultPlaceholder)
     = Inr (Some 95, initialState defaultPlaceholder)
   \<and> handleMarkEdit 104 Math ''abc'' (initialState defaultPlaceholder)
     = Inr (Some 95, initialState defaultPlaceholder)"
proof -
  let ?s = "initialState defaultPlaceholder"
  let ?m = "\<lparr>math = parseInt (markMath outOfRangeForm), science = parseInt (markScience outOfRangeForm),
              english = parseInt (markEnglish outOfRangeForm),
              history = parseInt (markHistory outOfRangeForm),
              computer = parseInt (markComputer outOfRangeForm)\<rparr>"
  note th = addStudent_no_validation
    [of "\<lparr>name' = ''Bob'', rollNo' = ''200'', marks' = ?m\<rparr>" ?s outOfRangeForm]
  have fresh: "\<not> (\<exists>x \<in> set (students ?s). rollNo x = String_trim (rollNoInput outOfRangeForm))"
    by (simp add: initialState_def studentsData_def outOfRangeForm_def String_trim_def
        isWhiteSpace_def)
  have c0: "\<not> (\<exists>x \<in> set (students ?s). rollNo x = String_trim (rollNoInput outOfRangeForm)) \<longrightarrow>
         fst (submitAddStudent outOfRangeForm ?s) = None
         \<and> length (students (snd (submitAddStudent outOfRangeForm ?s))) = length (students ?s) + 1
         \<and> marks (last (students (snd (submitAddStudent outOfRangeForm ?s)))) = ?m"
    using th by (elim conjE)
  have c1: "fst (submitAddStudent outOfRangeForm ?s) = None
         \<and> length (students (snd (submitAddStudent outOfRangeForm ?s))) = length (students ?s) + 1
         \<and> marks (last (students (snd (submitAddStudent outOfRangeForm ?s)))) = ?m"
    using c0 fresh by (rule mp)
  have m: "?m = \<lparr>math = Some 150, science = Some (- 5), english = None, history = None,
      computer = Some 70\<rparr>"
    by (simp add: outOfRangeForm_def parse_150_abc)
  have len: "length (students ?s) + 1 = 6"
    by (simp add: initialState_def studentsData_def)
  from c1 have c: "fst (submitAddStudent outOfRangeForm ?s) = None"
    and l: "length (students (snd (submitAddStudent outOfRangeForm ?s))) = 6"
    and k: "marks (last (students (snd (submitAddStudent outOfRangeForm ?s))))
     = \<lparr>math = Some 150, science = Some (- 5), english = None, history = None, computer = Some 70\<rparr>"
    unfolding m len by simp_all
  have e0: "\<forall>i subject raw st.
         find (\<lambda>x. id' x = i) (students ?s) = Some st
         \<and> (parseInt (String_trim raw) = None
            \<or> (\<exists>v. parseInt (String_trim raw) = Some v \<and> (v < 0 \<or> 100 < v))) \<longrightarrow>
         handleMarkEdit i subject raw ?s = Inr (mark_at (marks st) subject, ?s)"
    using th by (elim conjE)
  have "handleMarkEdit 104 Math ''150'' ?s = Inr (mark_at (marks (hd studentsData)) Math, ?s)"
    using e0 find_104 parse_150_abc(1) by simp
  then have e: "handleMarkEdit 104 Math ''150'' ?s = Inr (Some 95, ?s)"
    by (simp add: studentsData_def)
  have "handleMarkEdit 104 Math ''abc'' ?s = Inr (mark_at (marks (hd studentsData)) Math, ?s)"
    using e0 find_104 parse_150_abc(2) by simp
  then have f: "handleMarkEdit 104 Math ''abc'' ?s = Inr (Some 95, ?s)"
    by (simp add: studentsData_def)
  from c l k e f show ?thesis by (intro conjI)
qed
section \<open>The comparison chart\<close>

lemma winner_cases:
  "winner m0 m1 = 0 \<longleftrightarrow> js_lt m1 m0"
  "winner m0 m1 = 1 \<longleftrightarrow> js_lt m0 m1"
  "winner m0 m1 = - 1 \<longleftrightarrow> \<not> js_lt m1 m0 \<and> \<not> js_lt m0 m1"
  "0 \<le> winner m0 m1 \<longleftrightarrow> js_lt m1 m0 \<or> js_lt m0 m1"
  by (auto simp: winner_def js_lt_def split: option.splits)

lemma legend_entries:
  "concat (map (\<lambda>subject.
      (let w = winner (f subject) (g subject)
       in if 0 \<le> w then [(SUBJECT_LABELS subject, if w = 0 then a else b)] else [])) subs)
   = map (\<lambda>subject. (SUBJECT_LABELS subject, if js_lt (g subject) (f subject) then a else b))
       (filter (\<lambda>subject. js_lt (g subject) (f subject) \<or> js_lt (f subject) (g subject)) subs)"
  by (induction subs) (simp_all add: Let_def winner_cases)

lemma marker_entries:
  "concat (map (\<lambda>subject.
      filter (\<lambda>(sub, barIndex). winner (f subject) (g subject) = barIndex)
        [(subject, 0), (subject, 1)]) subs)
   = map (\<lambda>subject. (subject, if js_lt (g subject) (f subject) then 0 else 1))
       (filter (\<lambda>subject. js_lt (g subject) (f subject) \<or> js_lt (f subject) (g subject)) subs)"
  by (induction subs) (auto simp: winner_def js_lt_def split: option.splits)

lemma numeric_mark_at: "numeric m \<Longrightarrow> \<exists>v. mark_at m subject = Some v"
  by (cases m; cases subject) (simp_all add: numeric_def Object_values_def)

lemma js_lt_numeric:
  assumes "numeric m" "numeric n"
  shows "js_lt (mark_at n subject) (mark_at m subject)
      \<longleftrightarrow> (\<exists>u v. mark_at m subject = Some u \<and> mark_at n subject = Some v \<and> v < u)"
    and "js_lt (mark_at n subject) (mark_at m subject) \<or> js_lt (mark_at m subject) (mark_at n subject)
      \<longleftrightarrow> mark_at m subject \<noteq> mark_at n subject"
proof -
  from assms obtain u v where uv: "mark_at m subject = Some u" "mark_at n subject = Some v"
    using numeric_mark_at by blast
  show "js_lt (mark_at n subject) (mark_at m subject)
      \<longleftrightarrow> (\<exists>u v. mark_at m subject = Some u \<and> mark_at n subject = Some v \<and> v < u)"
    unfolding uv by (simp add: js_lt_def)
  show "js_lt (mark_at n subject) (mark_at m subject) \<or> js_lt (mark_at m subject) (mark_at n subject)
      \<longleftrightarrow> mark_at m subject \<noteq> mark_at n subject"
    unfolding uv by (auto simp: js_lt_def)
qed

text \<open>
  Claim C7. When exactly two students are selected and both are in the roster,
  \<open>drawComparisonChart\<close> decides, subject by subject, a winner: the student with the
  strictly higher mark; otherwise there is no winner. The winner markers and the legend
  hold exactly the subjects where one mark is strictly higher than the other, in the
  order of the subjects, each with the bar, respectively the name, of the student with
  the higher mark. When the marks of both students are numbers, these are exactly the
  subjects where the two marks differ, and no winner means equal marks.
\<close>

theorem drawComparisonChart_winners:
  assumes "selectedStudents s = [a, b]"
    and "find (\<lambda>x. id' x = a) (students s) = Some student1"
    and "find (\<lambda>x. id' x = b) (students s) = Some student2"
  shows "\<exists>c. drawComparisonChart s = Some c
      \<and> comparisonNames c = (name student1, name student2)
      \<and> comparisonLegend c =
          map (\<lambda>subject. (SUBJECT_LABELS subject,
                 if js_lt (mark_at (marks student2) subject) (mark_at (marks student1) subject)
                 then name student1 else name student2))
            (filter (\<lambda>subject.
                 js_lt (mark_at (marks student2) subject) (mark_at (marks student1) subject)
                 \<or> js_lt (mark_at (marks student1) subject) (mark_at (marks student2) subject))
               SUBJECTS)
      \<and> winnerMarkers c =
          map (\<lambda>subject. (subject,
                 if js_lt (mark_at (marks student2) subject) (mark_at (marks student1) subject)
                 then 0 else 1))
            (filter (\<lambda>subject.
                 js_lt (mark_at (marks student2) subject) (mark_at (marks student1) subject)
                 \<or> js_lt (mark_at (marks student1) subject) (mark_at (marks student2) subject))
               SUBJECTS)
      \<and> (\<forall>subject. (winner (mark_at (marks student1) subject) (mark_at (marks student2) subject) = 0
              \<longleftrightarrow> js_lt (mark_at (marks student2) subject) (mark_at (marks student1) subject))
           \<and> (winner (mark_at (marks student1) subject) (mark_at (marks student2) subject) = 1
              \<longleftrightarrow> js_lt (mark_at (marks student1) subject) (mark_at (marks student2) subject))
           \<and> (winner (mark_at (marks student1) subject) (mark_at (marks student2) subject) = - 1
              \<longleftrightarrow> \<not> js_lt (mark_at (marks student2) subject) (mark_at (marks student1) subject)
                \<and> \<not> js_lt (mark_at (marks student1) subject) (mark_at (marks student2) subject)))
      \<and> (numeric (marks student1) \<and> numeric (marks student2) \<longrightarrow>
           comparisonLegend c =
             map (\<lambda>subject. (SUBJECT_LABELS subject,
                    if js_lt (mark_at (marks student2) subject) (mark_at (marks student1) subject)
                    then name student1 else name student2))
               (filter (\<lambda>subject. mark_at (marks student1) subject \<noteq> mark_at (marks student2) subject)
                  SUBJECTS)
           \<and> winnerMarkers c =
             map (\<lambda>subject. (subject,
                    if js_lt (mark_at (marks student2) subject) (mark_at (marks student1) subject)
                    then 0 else 1))
               (filter (\<lambda>subject. mark_at (marks student1) subject \<noteq> mark_at (marks student2) subject)
                  SUBJECTS)
           \<and> (\<forall>subject.
                (js_lt (mark_at (marks student2) subject) (mark_at (marks student1) subject)
                  \<longleftrightarrow> (\<exists>u v. mark_at (marks student1) subject = Some u
                         \<and> mark_at (marks student2) subject = Some v \<and> v < u))
                \<and> (winner (mark_at (marks student1) subject) (mark_at (marks student2) subject) = - 1
                  \<longleftrightarrow> mark_at (marks student1) subject = mark_at (marks student2) subject)))"
proof -
  let ?m1 = "\<lambda>subject. mark_at (marks student1) subject"
  let ?m2 = "\<lambda>subject. mark_at (marks student2) subject"
  let ?c = "\<lparr>comparisonNames = (name student1, name student2),
      winnerMarkers = map (\<lambda>subject. (subject, if js_lt (?m2 subject) (?m1 subject) then 0 else 1))
            (filter (\<lambda>subject. js_lt (?m2 subject) (?m1 subject) \<or> js_lt (?m1 subject) (?m2 subject))
               SUBJECTS),
      comparisonLegend = map (\<lambda>subject. (SUBJECT_LABELS subject,
                 if js_lt (?m2 subject) (?m1 subject) then name student1 else name student2))
            (filter (\<lambda>subject. js_lt (?m2 subject) (?m1 subject) \<or> js_lt (?m1 subject) (?m2 subject))
               SUBJECTS)\<rparr>"
  have c: "drawComparisonChart s = Some ?c"
    using assms unfolding drawComparisonChart_def legend_entries marker_entries by simp
  have n: "comparisonNames ?c = (name student1, name student2)" by simp
  have l: "comparisonLegend ?c = map (\<lambda>subject. (SUBJECT_LABELS subject,
                 if js_lt (?m2 subject) (?m1 subject) then name student1 else name student2))
            (filter (\<lambda>subject. js_lt (?m2 subject) (?m1 subject) \<or> js_lt (?m1 subject) (?m2 subject))
               SUBJECTS)"
    by simp
  have m: "winnerMarkers ?c = map (\<lambda>subject. (subject,
                 if js_lt (?m2 subject) (?m1 subject) then 0 else 1))
            (filter (\<lambda>subject. js_lt (?m2 subject) (?m1 subject) \<or> js_lt (?m1 subject) (?m2 subject))
               SUBJECTS)"
    by simp
  have w: "\<forall>subject. (winner (?m1 subject) (?m2 subject) = 0 \<longleftrightarrow> js_lt (?m2 subject) (?m1 subject))
           \<and> (winner (?m1 subject) (?m2 subject) = 1 \<longleftrightarrow> js_lt (?m1 subject) (?m2 subject))
           \<and> (winner (?m1 subject) (?m2 subject) = - 1
              \<longleftrightarrow> \<not> js_lt (?m2 subject) (?m1 subject) \<and> \<not> js_lt (?m1 subject) (?m2 subject))"
    by (simp add: winner_cases)
  have num: "numeric (marks student1) \<and> numeric (marks student2) \<longrightarrow>
           comparisonLegend ?c =
             map (\<lambda>subject. (SUBJECT_LABELS subject,
                    if js_lt (?m2 subject) (?m1 subject) then name student1 else name student2))
               (filter (\<lambda>subject. ?m1 subject \<noteq> ?m2 subject) SUBJECTS)
           \<and> winnerMarkers ?c =
             map (\<lambda>subject. (subject, if js_lt (?m2 subject) (?m1 subject) then 0 else 1))
               (filter (\<lambda>subject. ?m1 subject \<noteq> ?m2 subject) SUBJECTS)
           \<and> (\<forall>subject.
                (js_lt (?m2 subject) (?m1 subject)
                  \<longleftrightarrow> (\<exists>u v. ?m1 subject = Some u \<and> ?m2 subject = Some v \<and> v < u))
                \<and> (winner (?m1 subject) (?m2 subject) = - 1 \<longleftrightarrow> ?m1 subject = ?m2 subject))"
  proof
    assume "numeric (marks student1) \<and> numeric (marks student2)"
    then have n1: "numeric (marks student1)" and n2: "numeric (marks student2)" by simp_all
    have d: "\<And>subject. (js_lt (?m2 subject) (?m1 subject) \<or> js_lt (?m1 subject) (?m2 subject))
        = (?m1 subject \<noteq> ?m2 subject)"
      by (rule js_lt_numeric(2) [OF n1 n2])
    have e: "\<And>subject. js_lt (?m2 subject) (?m1 subject)
        \<longleftrightarrow> (\<exists>u v. ?m1 subject = Some u \<and> ?m2 subject = Some v \<and> v < u)"
      by (rule js_lt_numeric(1) [OF n1 n2])
    have l': "comparisonLegend ?c =
             map (\<lambda>subject. (SUBJECT_LABELS subject,
                    if js_lt (?m2 subject) (?m1 subject) then name student1 else name student2))
               (filter (\<lambda>subject. ?m1 subject \<noteq> ?m2 subject) SUBJECTS)"
      by (simp add: d)
    have m': "winnerMarkers ?c =
             map (\<lambda>subject. (subject, if js_lt (?m2 subject) (?m1 subject) then 0 else 1))
               (filter (\<lambda>subject. ?m1 subject \<noteq> ?m2 subject) SUBJECTS)"
      by (simp add: d)
    have w': "\<forall>subject.
                (js_lt (?m2 subject) (?m1 subject)
                  \<longleftrightarrow> (\<exists>u v. ?m1 subject = Some u \<and> ?m2 subject = Some v \<and> v < u))
                \<and> (winner (?m1 subject) (?m2 subject) = - 1 \<longleftrightarrow> ?m1 subject = ?m2 subject)"
    proof (intro allI conjI)
      fix subject
      show "js_lt (?m2 subject) (?m1 subject)
                  \<longleftrightarrow> (\<exists>u v. ?m1 subject = Some u \<and> ?m2 subject = Some v \<and> v < u)"
        by (rule e)
      show "winner (?m1 subject) (?m2 subject) = - 1 \<longleftrightarrow> ?m1 subject = ?m2 subject"
        unfolding winner_cases using d [of subject] by blast
    qed
    from l' m' w' show "comparisonLegend ?c =
             map (\<lambda>subject. (SUBJECT_LABELS subject,
                    if js_lt (?m2 subject) (?m1 subject) then name student1 else name student2))
               (filter (\<lambda>subject. ?m1 subject \<noteq> ?m2 subject) SUBJECTS)
           \<and> winnerMarkers ?c =
             map (\<lambda>subject. (subject, if js_lt (?m2 subject) (?m1 subject) then 0 else 1))
               (filter (\<lambda>subject. ?m1 subject \<noteq> ?m2 subject) SUBJECTS)
           \<and> (\<forall>subject.
                (js_lt (?m2 subject) (?m1 subject)
                  \<longleftrightarrow> (\<exists>u v. ?m1 subject = Some u \<and> ?m2 subject = Some v \<and> v < u))
                \<and> (winner (?m1 subject) (?m2 subject) = - 1 \<longleftrightarrow> ?m1 subject = ?m2 subject))"
      by (intro conjI)
  qed
  from c n l m w num show ?thesis
    by (intro exI [of _ ?c] conjI)
qed

theorem drawComparisonChart_winners_witness:
  "\<exists>c. drawComparisonChart comparisonExample = Some c
      \<and> comparisonNames c = (''A'', ''B'')
      \<and> comparisonLegend c =
           [(''Math'', ''B''), (''Science'', ''A''), (''History'', ''B''), (''Computer'', ''A'')]
      \<and> winnerMarkers c = [(Math, 1), (Science, 0), (History, 1), (Computer, 0)]"
proof -
  let ?A = "tieRoster ! 0" and ?B = "tieRoster ! 1"
  have sel: "selectedStudents comparisonExample = [1, 2]"
    by (simp add: comparisonExample_def)
  have f1: "find (\<lambda>x. id' x = 1) (students comparisonExample) = Some ?A"
    by (simp add: comparisonExample_def tieRoster_def)
  have f2: "find (\<lambda>x. id' x = 2) (students comparisonExample) = Some ?B"
    by (simp add: comparisonExample_def tieRoster_def)
  have num: "numeric (marks ?A) \<and> numeric (marks ?B)"
    by (simp add: tieRoster_def numeric_def Object_values_def)
  from drawComparisonChart_winners [OF sel f1 f2]
  obtain c where c: "drawComparisonChart comparisonExample = Some c"
    and n: "comparisonNames c = (name ?A, name ?B)"
    and imp: "numeric (marks ?A) \<and> numeric (marks ?B) \<longrightarrow>
           comparisonLegend c =
             map (\<lambda>subject. (SUBJECT_LABELS subject,
                    if js_lt (mark_at (marks ?B) subject) (mark_at (marks ?A) subject)
                    then name ?A else name ?B))
               (filter (\<lambda>subject. mark_at (marks ?A) subject \<noteq> mark_at (marks ?B) subject)
                  SUBJECTS)
           \<and> winnerMarkers c =
             map (\<lambda>subject. (subject,
                    if js_lt (mark_at (marks ?B) subject) (mark_at (marks ?A) subject)
                    then 0 else 1))
               (filter (\<lambda>subject. mark_at (marks ?A) subject \<noteq> mark_at (marks ?B) subject)
                  SUBJECTS)
           \<and> (\<forall>subject.
                (js_lt (mark_at (marks ?B) subject) (mark_at (marks ?A) subject)
                  \<longleftrightarrow> (\<exists>u v. mark_at (marks ?A) subject = Some u
                         \<and> mark_at (marks ?B) subject = Some v \<and> v < u))
                \<and> (winner (mark_at (marks ?A) subject) (mark_at (marks ?B) subject) = - 1
                  \<longleftrightarrow> mark_at (marks ?A) subject = mark_at (marks ?B) subject))"
    by blast
  from imp num have l: "comparisonLegend c =
             map (\<lambda>subject. (SUBJECT_LABELS subject,
                    if js_lt (mark_at (marks ?B) subject) (mark_at (marks ?A) subject)
                    then name ?A else name ?B))
               (filter (\<lambda>subject. mark_at (marks ?A) subject \<noteq> mark_at (marks ?B) subject)
                  SUBJECTS)"
    and w: "winnerMarkers c =
             map (\<lambda>subject. (subject,
                    if js_lt (mark_at (marks ?B) subject) (mark_at (marks ?A) subject)
                    then 0 else 1))
               (filter (\<lambda>subject. mark_at (marks ?A) subject \<noteq> mark_at (marks ?B) subject)
                  SUBJECTS)"
    by blast+
  have n': "comparisonNames c = (''A'', ''B'')"
    unfolding n by (simp add: tieRoster_def)
  have l': "comparisonLegend c =
           [(''Math'', ''B''), (''Science'', ''A''), (''History'', ''B''), (''Computer'', ''A'')]"
    unfolding l by (simp add: tieRoster_def SUBJECTS_def js_lt_def)
  have w': "winnerMarkers c = [(Math, 1), (Science, 0), (History, 1), (Computer, 0)]"
    unfolding w by (simp add: tieRoster_def SUBJECTS_def js_lt_def)
  from c n' l' w' show ?thesis by (intro exI [of _ c] conjI)
qed

end
